theory Spec2Isabelle
  imports Complex_Main "HOL-Library.Char_ord" "HOL-Library.List_Lexorder"
    "HOL-Library.Product_Lexorder"
begin

section \<open>The remote tree of one environment\<close>

text \<open>
  Both shell scripts work on the directory \<open>REMOTE_PATH\<close> of the selected environment:
  \<^verbatim>\<open>releases/<name>\<close>, the top-level directories (\<^verbatim>\<open>backup_*\<close>,
  \<^verbatim>\<open>rollback_backup_*\<close>), the symlink \<^verbatim>\<open>current\<close> and the process manager.
  A directory entry is its name and its modification time; the two listings hold the
  entries that \<^verbatim>\<open>ls\<close> shows. \<open>clock\<close> is the time of the remote host, read when
  a directory is created or rewritten. \<open>restarts\<close> counts the (re)starts asked of
  the process manager.
\<close>

type_synonym entry = "string \<times> nat"

record remote =
  releases :: "entry list"
  toplevel :: "entry list"
  current :: "string option"
  clock :: nat
  restarts :: nat

fun strip_prefix :: "string \<Rightarrow> string \<Rightarrow> string option" where
  "strip_prefix [] s = Some s"
| "strip_prefix (p # ps) [] = None"
| "strip_prefix (p # ps) (c # cs) = (if p = c then strip_prefix ps cs else None)"

text \<open>The shell pattern \<^verbatim>\<open>backup_*\<close>, of the glob and of \<^verbatim>\<open>[[ $RELEASE_VERSION == backup_* ]]\<close>.\<close>

definition glob_backup :: "string \<Rightarrow> bool" where
  "glob_backup n = (take 7 n = ''backup_'')"

text \<open>
  \<^verbatim>\<open>[ -d path ]\<close> on the remote host, for a path below \<open>base\<close>: the first component
  \<^verbatim>\<open>releases\<close> selects the release directory, anything else is a top-level name.
\<close>

definition dir_exists :: "string \<Rightarrow> remote \<Rightarrow> string \<Rightarrow> bool" where
  "dir_exists base r p =
     (case strip_prefix (base @ ''/'') p of
        None \<Rightarrow> False
      | Some rest \<Rightarrow>
          (case strip_prefix ''releases/'' rest of
             Some n \<Rightarrow> n \<in> set (map fst (releases r))
           | None \<Rightarrow> rest \<in> set (map fst (toplevel r))))"

text \<open>\<^verbatim>\<open>[ -d ${REMOTE_PATH}/current ]\<close>: the symlink is there and its target is a directory.\<close>

definition current_is_dir :: "string \<Rightarrow> remote \<Rightarrow> bool" where
  "current_is_dir base r =
     (case current r of None \<Rightarrow> False | Some t \<Rightarrow> dir_exists base r t)"

text \<open>
  \<^verbatim>\<open>ls -t\<close>: newest modification time first, names in byte order among equal times;
  \<^verbatim>\<open>ls -dt backup_*\<close> is the same over the names the glob matches.
\<close>

definition ls_key :: "entry \<Rightarrow> int \<times> string" where
  "ls_key e = (- int (snd e), fst e)"

definition ls_t :: "entry list \<Rightarrow> entry list" where
  "ls_t es = sort_key ls_key es"

definition ls_dt_backups :: "entry list \<Rightarrow> entry list" where
  "ls_dt_backups es = ls_t (filter (\<lambda>e. glob_backup (fst e)) es)"

text \<open>A directory written at the current remote time: created, or its entry rewritten.\<close>

definition put :: "string \<Rightarrow> nat \<Rightarrow> entry list \<Rightarrow> entry list" where
  "put n t es = (n, t) # filter (\<lambda>e. fst e \<noteq> n) es"

definition tick :: "remote \<Rightarrow> remote" where
  "tick r = r\<lparr>clock := Suc (clock r)\<rparr>"

text \<open>\<^verbatim>\<open>xargs -r rm -rf\<close> over a list of names, in the directory holding \<open>es\<close>.\<close>

definition rm_rf :: "string list \<Rightarrow> entry list \<Rightarrow> entry list" where
  "rm_rf ns es = filter (\<lambda>e. fst e \<notin> set ns) es"

section \<open>Configuration, inputs and outcomes of a run\<close>

record config =
  REMOTE_HOST :: string
  REMOTE_PATH :: string
  PM2_APP_NAME :: string
  HEALTH_CHECK_URL :: string

definition APP_NAME :: string where
  "APP_NAME = ''my-app''"

definition BUILD_DIR :: string where
  "BUILD_DIR = ''dist''"

definition MAX_ATTEMPTS :: nat where
  "MAX_ATTEMPTS = 5"

text \<open>The \<^verbatim>\<open>case $ENVIRONMENT in\<close> block, the same in both scripts.\<close>

definition env_config :: "string \<Rightarrow> string \<Rightarrow> string \<Rightarrow> config option" where
  "env_config ENVIRONMENT staging_server production_server =
     (if ENVIRONMENT = ''staging'' then
        Some \<lparr>REMOTE_HOST = staging_server,
              REMOTE_PATH = ''/var/www/'' @ APP_NAME @ ''/staging'',
              PM2_APP_NAME = APP_NAME @ ''-staging'',
              HEALTH_CHECK_URL = ''https://staging.example.com/health''\<rparr>
      else if ENVIRONMENT = ''production'' then
        Some \<lparr>REMOTE_HOST = production_server,
              REMOTE_PATH = ''/var/www/'' @ APP_NAME @ ''/production'',
              PM2_APP_NAME = APP_NAME @ ''-production'',
              HEALTH_CHECK_URL = ''https://example.com/health''\<rparr>
      else None)"

text \<open>What one health request meets: no connection, no answer in time, or a status code.\<close>

datatype http_outcome = Refused | TimedOut | Responded nat

text \<open>
  Exit status of \<^verbatim>\<open>curl -f -s --max-time 10 URL\<close>: 7 without a connection, 28 after
  the ten seconds, 22 for a status code of 400 or more, 0 otherwise. Redirects are not
  followed (the script passes no \<^verbatim>\<open>-L\<close>).
\<close>

definition curl_f :: "http_outcome \<Rightarrow> nat" where
  "curl_f out =
     (case out of
        Refused \<Rightarrow> 7
      | TimedOut \<Rightarrow> 28
      | Responded c \<Rightarrow> (if 400 \<le> c then 22 else 0))"

text \<open>
  The commands whose exit status the scripts react to, or whose failure is ignored on
  purpose. The ssh channel itself is taken to work: an ssh call returns the status of
  the remote shell.
\<close>

datatype cmd =
    C_mkdir | C_rsync | C_scp_package | C_npm_ci | C_scp_env
  | C_pm2_restart | C_pm2_save
  | C_cd_releases | C_rm_releases | C_cd_root | C_rm_backups
  | C_slack

text \<open>
  Everything a run reads from outside: the positional arguments (empty when omitted),
  the environment variables, whether \<^verbatim>\<open>dist\<close> exists, the output of \<^verbatim>\<open>date\<close>, the line
  typed at the prompt (\<open>None\<close> at end of input), what the health URL answers at each
  attempt, and the exit status of each command.
\<close>

record invocation =
  arg1 :: string
  arg2 :: string
  STAGING_SERVER :: string
  PRODUCTION_SERVER :: string
  STAGING_ENV_FILE :: string
  PRODUCTION_ENV_FILE :: string
  SLACK_WEBHOOK_URL :: string
  build_dir :: bool
  TIMESTAMP :: string
  answer :: "string option"
  health :: "nat \<Rightarrow> http_outcome"
  status :: "cmd \<Rightarrow> nat"

text \<open>
  The health check of both scripts at an attempt: the test of
  \<^verbatim>\<open>if curl -f -s --max-time 10 "$HEALTH_CHECK_URL" > /dev/null; then\<close>.
\<close>

definition attempt_passes :: "invocation \<Rightarrow> nat \<Rightarrow> bool" where
  "attempt_passes w k = (curl_f (health w k) = 0)"

datatype level = INFO | WARN | ERROR

datatype action =
    Log level string
  | Echo string
  | Output "string list"
  | TestDir string
  | TestLink string
  | CopyDir string string
  | MakeDir string
  | Rsync string
  | Scp string
  | NpmCi string
  | Symlink string string
  | Pm2Restart string
  | Pm2Start string
  | Pm2Save
  | Remove string "string list"
  | Sleep nat
  | Curl string
  | Post string
  | ReadConfirm

text \<open>
  A run is its exit code, the remote state it leaves and what it did, in order, each
  action with the remote state after it.
\<close>

record run =
  exit_code :: nat
  final :: remote
  trace :: "(action \<times> remote) list"

definition exit_with :: "nat \<Rightarrow> remote \<Rightarrow> run" where
  "exit_with n r = \<lparr>exit_code = n, final = r, trace = []\<rparr>"

definition act :: "action \<Rightarrow> remote \<Rightarrow> run \<Rightarrow> run" where
  "act a r k = k\<lparr>trace := (a, r) # trace k\<rparr>"

text \<open>\<^verbatim>\<open>set -e\<close>: a command that returns non-zero ends the script with that status.\<close>

definition errexit :: "nat \<Rightarrow> remote \<Rightarrow> run \<Rightarrow> run" where
  "errexit st r k = (if st \<noteq> 0 then exit_with st r else k)"

text \<open>The remote shell has no \<^verbatim>\<open>set -e\<close>: ssh returns the status of the last command run.\<close>

definition remote_status :: "nat list \<Rightarrow> nat" where
  "remote_status sts = (if sts = [] then 0 else last sts)"

text \<open>\<^verbatim>\<open>${1:-staging}\<close>\<close>

definition default_staging :: "string \<Rightarrow> string" where
  "default_staging a = (if a = [] then ''staging'' else a)"

function digits :: "nat \<Rightarrow> string" where
  "digits n =
     (if n < 10 then [''0123456789'' ! n]
      else digits (n div 10) @ [''0123456789'' ! (n mod 10)])"
  by pat_completeness auto
termination
  by (relation "measure id") auto

section \<open>The deployment script\<close>

definition RELEASE_DIR :: "config \<Rightarrow> invocation \<Rightarrow> string" where
  "RELEASE_DIR cfg w = REMOTE_PATH cfg @ ''/releases/'' @ TIMESTAMP w"

definition BACKUP_DIR :: "config \<Rightarrow> invocation \<Rightarrow> string" where
  "BACKUP_DIR cfg w = REMOTE_PATH cfg @ ''/backup_'' @ TIMESTAMP w"

definition CURRENT :: "config \<Rightarrow> string" where
  "CURRENT cfg = REMOTE_PATH cfg @ ''/current''"

text \<open>
  \<^verbatim>\<open>cp -r ${REMOTE_PATH}/current ${REMOTE_PATH}/backup_${TIMESTAMP}\<close>: the copy is a
  top-level directory written now.
\<close>

definition backup_current :: "invocation \<Rightarrow> remote \<Rightarrow> remote" where
  "backup_current w r =
     tick (r\<lparr>toplevel := put (''backup_'' @ TIMESTAMP w) (clock r) (toplevel r)\<rparr>)"

text \<open>\<^verbatim>\<open>mkdir -p ${RELEASE_DIR}\<close> leaves a directory that is already there as it is.\<close>

definition make_release :: "invocation \<Rightarrow> remote \<Rightarrow> remote" where
  "make_release w r =
     (if TIMESTAMP w \<in> set (map fst (releases r)) then r
      else tick (r\<lparr>releases := (TIMESTAMP w, clock r) # releases r\<rparr>))"

text \<open>\<^verbatim>\<open>npm ci\<close> rebuilds \<^verbatim>\<open>node_modules\<close> in the release directory, which rewrites it.\<close>

definition install_deps :: "invocation \<Rightarrow> remote \<Rightarrow> remote" where
  "install_deps w r = tick (r\<lparr>releases := put (TIMESTAMP w) (clock r) (releases r)\<rparr>)"

text \<open>
  \<^verbatim>\<open>cd ${REMOTE_PATH}/releases; ls -t | tail -n +6 | xargs -r rm -rf\<close> and
  \<^verbatim>\<open>cd ${REMOTE_PATH}; ls -dt backup_* 2>/dev/null | tail -n +4 | xargs -r rm -rf || true\<close>.
  When \<^verbatim>\<open>cd\<close> fails the pipeline runs in the login directory, outside this tree; a
  failing \<^verbatim>\<open>rm\<close> is taken to delete nothing.
\<close>

definition old_releases :: "remote \<Rightarrow> string list" where
  "old_releases r = map fst (drop 5 (ls_t (releases r)))"

definition old_backups :: "remote \<Rightarrow> string list" where
  "old_backups r = map fst (drop 3 (ls_dt_backups (toplevel r)))"

definition prune_releases :: "invocation \<Rightarrow> remote \<Rightarrow> remote" where
  "prune_releases w r =
     (if status w C_cd_releases = 0 \<and> status w C_rm_releases = 0
      then r\<lparr>releases := rm_rf (old_releases r) (releases r)\<rparr> else r)"

definition prune_backups :: "invocation \<Rightarrow> remote \<Rightarrow> remote" where
  "prune_backups w r =
     (if status w C_cd_root = 0 \<and> status w C_rm_backups = 0
      then r\<lparr>toplevel := rm_rf (old_backups r) (toplevel r)\<rparr> else r)"

text \<open>The success messages and the optional Slack notification, up to \<^verbatim>\<open>exit 0\<close>.\<close>

definition deploy_notify :: "config \<Rightarrow> invocation \<Rightarrow> string \<Rightarrow> remote \<Rightarrow> run" where
  "deploy_notify cfg w ENVIRONMENT r =
     act (Log INFO (''Deployment to '' @ ENVIRONMENT @ '' completed successfully!'')) r
    (act (Log INFO (''Release: '' @ TIMESTAMP w)) r
    (act (Log INFO (''Application is running at: '' @ HEALTH_CHECK_URL cfg)) r
    (if SLACK_WEBHOOK_URL w \<noteq> [] then
       act (Log INFO ''Sending Slack notification...'') r
      (act (Post (SLACK_WEBHOOK_URL w)) r
      (errexit (status w C_slack) r
      (exit_with 0 r)))
     else exit_with 0 r)))"

text \<open>
  Cleanup of old releases (keep last 5) and old backups (keep last 3). Each remote
  script ends with \<^verbatim>\<open>echo\<close>, whose status is what ssh returns.
\<close>

definition deploy_cleanup :: "config \<Rightarrow> invocation \<Rightarrow> string \<Rightarrow> remote \<Rightarrow> run" where
  "deploy_cleanup cfg w ENVIRONMENT r =
     act (Log INFO ''Cleaning up old releases...'') r
    (let r1 = prune_releases w r in
     (if status w C_cd_releases = 0 \<and> old_releases r \<noteq> []
      then act (Remove (REMOTE_PATH cfg @ ''/releases'') (old_releases r)) r1 else id)
    (errexit (remote_status [status w C_cd_releases, status w C_rm_releases, 0]) r1
    (act (Log INFO ''Cleaning up old backups...'') r1
    (let r2 = prune_backups w r1 in
     (if status w C_cd_root = 0 \<and> old_backups r1 \<noteq> []
      then act (Remove (REMOTE_PATH cfg) (old_backups r1)) r2 else id)
    (errexit (remote_status [status w C_cd_root, 0, 0]) r2
    (deploy_notify cfg w ENVIRONMENT r2))))))"

text \<open>
  The branch taken when the last health check has failed: back to the backup of this
  run if it is there, one restart, \<^verbatim>\<open>exit 1\<close>.
\<close>

definition deploy_revert :: "config \<Rightarrow> invocation \<Rightarrow> remote \<Rightarrow> run" where
  "deploy_revert cfg w r =
     act (Log ERROR (''Health check failed after '' @ digits MAX_ATTEMPTS @ '' attempts'')) r
    (act (Log WARN ''Initiating rollback...'') r
    (act (TestDir (BACKUP_DIR cfg w)) r
    (if dir_exists (REMOTE_PATH cfg) r (BACKUP_DIR cfg w) then
       (let r1 = r\<lparr>current := Some (BACKUP_DIR cfg w)\<rparr>;
            r2 = r1\<lparr>restarts := Suc (restarts r1)\<rparr> in
        act (Symlink (BACKUP_DIR cfg w) (CURRENT cfg)) r1
       (act (Pm2Restart (PM2_APP_NAME cfg)) r2
       (errexit (remote_status [status w C_pm2_restart, 0]) r2
       (exit_with 1 r2))))
     else errexit (remote_status []) r (exit_with 1 r))))"

text \<open>
  The \<^verbatim>\<open>while [ $ATTEMPT -le $MAX_ATTEMPTS ]\<close> loop; \<open>after\<close> is the script below
  \<^verbatim>\<open>done\<close>, reached by \<^verbatim>\<open>break\<close>.
\<close>

function deploy_health_loop :: "config \<Rightarrow> invocation \<Rightarrow> nat \<Rightarrow> remote \<Rightarrow> run \<Rightarrow> run" where
  "deploy_health_loop cfg w ATTEMPT r after =
     (if ATTEMPT \<le> MAX_ATTEMPTS then
        act (Log INFO (''Health check attempt '' @ digits ATTEMPT @ ''/''
                        @ digits MAX_ATTEMPTS @ ''...'')) r
       (act (Curl (HEALTH_CHECK_URL cfg)) r
       (if attempt_passes w ATTEMPT then
          act (Log INFO ''Health check passed!'') r after
        else if ATTEMPT = MAX_ATTEMPTS then deploy_revert cfg w r
        else
          act (Log WARN ''Health check failed, retrying in 10 seconds...'') r
         (act (Sleep 10) r
         (deploy_health_loop cfg w (ATTEMPT + 1) r after))))
      else after)"
  by pat_completeness auto
termination
  by (relation "measure (\<lambda>(cfg, w, ATTEMPT, r, after). Suc MAX_ATTEMPTS - ATTEMPT)") auto

text \<open>The symlink to the new release, the restart, the settle delay, the health check.\<close>

definition deploy_activate :: "config \<Rightarrow> invocation \<Rightarrow> string \<Rightarrow> remote \<Rightarrow> run" where
  "deploy_activate cfg w ENVIRONMENT r =
     act (Log INFO ''Updating symlink to new release...'') r
    (let r1 = r\<lparr>current := Some (RELEASE_DIR cfg w)\<rparr>;
         r2 = r1\<lparr>restarts := Suc (restarts r1)\<rparr> in
     act (Symlink (RELEASE_DIR cfg w) (CURRENT cfg)) r1
    (errexit (remote_status [0, 0]) r1
    (act (Log INFO ''Restarting application with PM2...'') r1
    (act (Pm2Restart (PM2_APP_NAME cfg)) r2
    ((if status w C_pm2_restart \<noteq> 0 then act (Pm2Start ''ecosystem.config.js'') r2 else id)
    (act Pm2Save r2
    (errexit (remote_status [status w C_pm2_save]) r2
    (act (Log INFO ''Waiting for application to start...'') r2
    (act (Sleep 10) r2
    (act (Log INFO ''Running health check...'') r2
    (deploy_health_loop cfg w 1 r2 (deploy_cleanup cfg w ENVIRONMENT r2))))))))))))"

text \<open>The release directory, the upload, the dependencies and the \<^verbatim>\<open>.env\<close> file.\<close>

definition deploy_upload :: "config \<Rightarrow> invocation \<Rightarrow> string \<Rightarrow> remote \<Rightarrow> run" where
  "deploy_upload cfg w ENVIRONMENT r =
     act (Log INFO (''Creating release directory: '' @ RELEASE_DIR cfg w)) r
    (let r1 = (if status w C_mkdir = 0 then make_release w r else r);
         r2 = (if status w C_npm_ci = 0 then install_deps w r1 else r1) in
     act (MakeDir (RELEASE_DIR cfg w)) r1
    (errexit (status w C_mkdir) r1
    (act (Log INFO ''Uploading build files...'') r1
    (act (Rsync (RELEASE_DIR cfg w @ ''/'')) r1
    (errexit (status w C_rsync) r1
    (act (Log INFO ''Installing production dependencies...'') r1
    (act (Scp (RELEASE_DIR cfg w @ ''/'')) r1
    (errexit (status w C_scp_package) r1
    (act (NpmCi (RELEASE_DIR cfg w)) r2
    (errexit (remote_status [0, status w C_npm_ci]) r2
    (act (Log INFO ''Setting up environment variables...'') r2
    (if ENVIRONMENT = ''staging'' \<and> STAGING_ENV_FILE w \<noteq> [] then
       act (Scp (RELEASE_DIR cfg w @ ''/.env'')) r2
      (errexit (status w C_scp_env) r2 (deploy_activate cfg w ENVIRONMENT r2))
     else if ENVIRONMENT = ''production'' \<and> PRODUCTION_ENV_FILE w \<noteq> [] then
       act (Scp (RELEASE_DIR cfg w @ ''/.env'')) r2
      (errexit (status w C_scp_env) r2 (deploy_activate cfg w ENVIRONMENT r2))
     else deploy_activate cfg w ENVIRONMENT r2))))))))))))"

text \<open>The whole script, from the validation to the backup of the current deployment.\<close>

definition deploy :: "invocation \<Rightarrow> remote \<Rightarrow> run" where
  "deploy w r =
     (let ENVIRONMENT = default_staging (arg1 w) in
      case env_config ENVIRONMENT (STAGING_SERVER w) (PRODUCTION_SERVER w) of
        None \<Rightarrow>
          act (Log ERROR (''Invalid environment: '' @ ENVIRONMENT)) r
         (act (Echo ''Usage: $0 {staging|production}'') r
         (exit_with 1 r))
      | Some cfg \<Rightarrow>
          if REMOTE_HOST cfg = [] then
            act (Log ERROR (''REMOTE_HOST is not set for environment: '' @ ENVIRONMENT)) r
           (exit_with 1 r)
          else if \<not> build_dir w then
            act (Log ERROR (''Build directory not found: '' @ BUILD_DIR)) r
           (exit_with 1 r)
          else
            act (Log INFO (''Starting deployment to '' @ ENVIRONMENT @ '' environment...'')) r
           (act (Log INFO (''Remote host: '' @ REMOTE_HOST cfg)) r
           (act (Log INFO (''Remote path: '' @ REMOTE_PATH cfg)) r
           (act (Log INFO ''Creating backup of current deployment...'') r
           (act (TestDir (CURRENT cfg)) r
           (if current_is_dir (REMOTE_PATH cfg) r then
              (let r1 = backup_current w r in
               act (CopyDir (CURRENT cfg) (BACKUP_DIR cfg w)) r1
              (errexit (remote_status [0, 0]) r1
              (deploy_upload cfg w ENVIRONMENT r1)))
            else
              errexit (remote_status [0]) r
             (deploy_upload cfg w ENVIRONMENT r)))))))"

section \<open>The rollback script\<close>

text \<open>\<^verbatim>\<open>[[ $RELEASE_VERSION == backup_* ]]\<close> chooses where the target is looked for.\<close>

definition rollback_path :: "string \<Rightarrow> string \<Rightarrow> string" where
  "rollback_path base RELEASE_VERSION =
     (if glob_backup RELEASE_VERSION then base @ ''/'' @ RELEASE_VERSION
      else base @ ''/releases/'' @ RELEASE_VERSION)"

text \<open>
  What the two listings of the discovery mode print:
  \<^verbatim>\<open>cd ${REMOTE_PATH}/releases 2>/dev/null && ls -t || echo 'No releases found'\<close> and
  \<^verbatim>\<open>cd ${REMOTE_PATH} 2>/dev/null && ls -dt backup_* 2>/dev/null || echo 'No backups found'\<close>.
  The directories \<^verbatim>\<open>${REMOTE_PATH}\<close> and \<^verbatim>\<open>releases\<close> are taken to be there; with
  no match the glob stays as it is and \<^verbatim>\<open>ls\<close> fails.
\<close>

definition list_releases :: "remote \<Rightarrow> string list" where
  "list_releases r = map fst (ls_t (releases r))"

definition list_backups :: "remote \<Rightarrow> string list" where
  "list_backups r =
     (if ls_dt_backups (toplevel r) = [] then [''No backups found'']
      else map fst (ls_dt_backups (toplevel r)))"

text \<open>\<^verbatim>\<open>cp -r ${CURRENT_TARGET} ${REMOTE_PATH}/rollback_backup_${TIMESTAMP}\<close>\<close>

definition snapshot :: "invocation \<Rightarrow> remote \<Rightarrow> remote" where
  "snapshot w r =
     tick (r\<lparr>toplevel := put (''rollback_backup_'' @ TIMESTAMP w) (clock r) (toplevel r)\<rparr>)"

text \<open>
  The success messages and the notification (\<^verbatim>\<open>|| true\<close>: its status is ignored), up to
  \<^verbatim>\<open>exit 0\<close>. Colour codes and the check mark are left out of the messages.
\<close>

definition rollback_success :: "config \<Rightarrow> invocation \<Rightarrow> string \<Rightarrow> remote \<Rightarrow> run" where
  "rollback_success cfg w ENVIRONMENT r =
     act (Log INFO ''========================================='') r
    (act (Log INFO ''Rollback completed successfully!'') r
    (act (Log INFO ''========================================='') r
    (act (Log INFO (''Environment: '' @ ENVIRONMENT)) r
    (act (Log INFO (''Rollback to: '' @ arg2 w)) r
    (act (Log INFO (''Application URL: '' @ HEALTH_CHECK_URL cfg)) r
    (if SLACK_WEBHOOK_URL w \<noteq> [] then
       act (Post (SLACK_WEBHOOK_URL w)) r (exit_with 0 r)
     else exit_with 0 r))))))"

text \<open>The branch taken when the last health check has failed: an alert, \<^verbatim>\<open>exit 1\<close>.\<close>

definition rollback_alert :: "invocation \<Rightarrow> remote \<Rightarrow> run" where
  "rollback_alert w r =
     act (Log ERROR ''Health check failed after rollback!'') r
    (act (Log ERROR ''Manual intervention required'') r
    (if SLACK_WEBHOOK_URL w \<noteq> [] then
       act (Post (SLACK_WEBHOOK_URL w)) r (exit_with 1 r)
     else exit_with 1 r))"

function rollback_health_loop :: "config \<Rightarrow> invocation \<Rightarrow> nat \<Rightarrow> remote \<Rightarrow> run \<Rightarrow> run" where
  "rollback_health_loop cfg w ATTEMPT r after =
     (if ATTEMPT \<le> MAX_ATTEMPTS then
        act (Log INFO (''Health check attempt '' @ digits ATTEMPT @ ''/''
                        @ digits MAX_ATTEMPTS @ ''...'')) r
       (act (Curl (HEALTH_CHECK_URL cfg)) r
       (if attempt_passes w ATTEMPT then
          act (Log INFO ''Health check passed!'') r after
        else if ATTEMPT = MAX_ATTEMPTS then rollback_alert w r
        else
          act (Log WARN ''Health check failed, retrying...'') r
         (act (Sleep 10) r
         (rollback_health_loop cfg w (ATTEMPT + 1) r after))))
      else after)"
  by pat_completeness auto
termination
  by (relation "measure (\<lambda>(cfg, w, ATTEMPT, r, after). Suc MAX_ATTEMPTS - ATTEMPT)") auto

text \<open>The symlink to the target, the restart, the settle delay, the health check.\<close>

definition rollback_switch :: "config \<Rightarrow> invocation \<Rightarrow> string \<Rightarrow> string \<Rightarrow> remote \<Rightarrow> run" where
  "rollback_switch cfg w ENVIRONMENT ROLLBACK_PATH r =
     act (Log INFO ''Updating symlink to rollback target...'') r
    (let r1 = r\<lparr>current := Some ROLLBACK_PATH\<rparr>;
         r2 = r1\<lparr>restarts := Suc (restarts r1)\<rparr> in
     act (Symlink ROLLBACK_PATH (CURRENT cfg)) r1
    (errexit (remote_status [0, 0]) r1
    (act (Log INFO ''Restarting application...'') r1
    (act (Pm2Restart (PM2_APP_NAME cfg)) r2
    (act Pm2Save r2
    (errexit (remote_status [status w C_pm2_restart, status w C_pm2_save]) r2
    (act (Log INFO ''Waiting for application to restart...'') r2
    (act (Sleep 10) r2
    (act (Log INFO ''Running health check...'') r2
    (rollback_health_loop cfg w 1 r2 (rollback_success cfg w ENVIRONMENT r2)))))))))))"

text \<open>
  The backup of the current state: \<^verbatim>\<open>[ -L current ]\<close> holds for any symlink, and the
  copy of a target that is not there fails; the remote script ends with \<^verbatim>\<open>echo\<close>.
\<close>

definition rollback_snapshot :: "config \<Rightarrow> invocation \<Rightarrow> string \<Rightarrow> string \<Rightarrow> remote \<Rightarrow> run" where
  "rollback_snapshot cfg w ENVIRONMENT ROLLBACK_PATH r =
     act (Log INFO ''Backing up current state...'') r
    (act (TestLink (CURRENT cfg)) r
    (case current r of
       None \<Rightarrow>
         errexit (remote_status []) r
        (rollback_switch cfg w ENVIRONMENT ROLLBACK_PATH r)
     | Some CURRENT_TARGET \<Rightarrow>
        (let r1 = (if dir_exists (REMOTE_PATH cfg) r CURRENT_TARGET then snapshot w r else r) in
         act (CopyDir CURRENT_TARGET (REMOTE_PATH cfg @ ''/rollback_backup_'' @ TIMESTAMP w)) r1
        (errexit (remote_status [if dir_exists (REMOTE_PATH cfg) r CURRENT_TARGET then 0 else 1, 0]) r1
        (rollback_switch cfg w ENVIRONMENT ROLLBACK_PATH r1)))))"

text \<open>The discovery mode, entered without a release version: two listings, then \<^verbatim>\<open>exit 1\<close>.\<close>

definition rollback_discover :: "string \<Rightarrow> remote \<Rightarrow> run" where
  "rollback_discover ENVIRONMENT r =
     act (Log INFO ''Available releases:'') r
    (act (Output (list_releases r)) r
    (errexit (remote_status [0, 0]) r
    (act (Log INFO []) r
    (act (Log INFO ''Available backups:'') r
    (act (Output (list_backups r)) r
    (errexit (remote_status [0, 0]) r
    (act (Echo []) r
    (act (Log ERROR ''Please specify a release version or backup to rollback to:'') r
    (act (Echo (''Usage: $0 '' @ ENVIRONMENT @ '' <release_version|backup_YYYYMMDD_HHMMSS>'')) r
    (exit_with 1 r))))))))))"

text \<open>
  The confirmation prompt. \<open>answer\<close> is what \<^verbatim>\<open>read\<close> puts into \<^verbatim>\<open>CONFIRM\<close>; at end
  of input \<^verbatim>\<open>read\<close> fails and \<^verbatim>\<open>set -e\<close> ends the script.
\<close>

definition rollback_confirm :: "config \<Rightarrow> invocation \<Rightarrow> string \<Rightarrow> string \<Rightarrow> remote \<Rightarrow> run" where
  "rollback_confirm cfg w ENVIRONMENT ROLLBACK_PATH r =
     act (Echo []) r
    (act (Log WARN (''You are about to rollback '' @ ENVIRONMENT @ '' to: '' @ arg2 w)) r
    (act ReadConfirm r
    (case answer w of
       None \<Rightarrow> exit_with 1 r
     | Some CONFIRM \<Rightarrow>
         if CONFIRM \<noteq> ''yes'' then
           act (Log INFO ''Rollback cancelled'') r (exit_with 0 r)
         else rollback_snapshot cfg w ENVIRONMENT ROLLBACK_PATH r)))"

text \<open>
  The target and its verification. The remote script runs \<^verbatim>\<open>exit 1\<close> when the
  directory is not there; under \<^verbatim>\<open>set -e\<close> the script ends at the ssh call, before the
  test of \<^verbatim>\<open>$?\<close> that follows it.
\<close>

definition rollback_verify :: "config \<Rightarrow> invocation \<Rightarrow> string \<Rightarrow> remote \<Rightarrow> run" where
  "rollback_verify cfg w ENVIRONMENT r =
     (let RELEASE_VERSION = arg2 w;
          ROLLBACK_PATH = rollback_path (REMOTE_PATH cfg) RELEASE_VERSION;
          found = dir_exists (REMOTE_PATH cfg) r ROLLBACK_PATH;
          st = remote_status (if found then [] else [0, 1]) in
      act (Log INFO ((if glob_backup RELEASE_VERSION then ''Rolling back to backup: ''
                      else ''Rolling back to release: '') @ RELEASE_VERSION)) r
     (act (Log INFO ''Verifying rollback target...'') r
     (act (TestDir ROLLBACK_PATH) r
     ((if found then id
       else act (Output [''ERROR: Rollback target not found: '' @ ROLLBACK_PATH]) r)
     (errexit st r
     (if st \<noteq> 0 then
        act (Log ERROR ''Rollback target verification failed'') r (exit_with 1 r)
      else rollback_confirm cfg w ENVIRONMENT ROLLBACK_PATH r))))))"

text \<open>The whole script.\<close>

definition rollback :: "invocation \<Rightarrow> remote \<Rightarrow> run" where
  "rollback w r =
     (let ENVIRONMENT = default_staging (arg1 w); RELEASE_VERSION = arg2 w in
      case env_config ENVIRONMENT (STAGING_SERVER w) (PRODUCTION_SERVER w) of
        None \<Rightarrow>
          act (Log ERROR (''Invalid environment: '' @ ENVIRONMENT)) r
         (act (Echo ''Usage: $0 {staging|production} [release_version]'') r
         (exit_with 1 r))
      | Some cfg \<Rightarrow>
          if REMOTE_HOST cfg = [] then
            act (Log ERROR ''REMOTE_HOST is not set'') r (exit_with 1 r)
          else
            act (Log WARN ''========================================='') r
           (act (Log WARN (''ROLLBACK INITIATED FOR: '' @ ENVIRONMENT)) r
           (act (Log WARN ''========================================='') r
           (if RELEASE_VERSION = [] then rollback_discover ENVIRONMENT r
            else rollback_verify cfg w ENVIRONMENT r))))"

section \<open>The health routes of the application\<close>

text \<open>
  What a handler reads from the Node process: \<^verbatim>\<open>process.uptime()\<close>,
  \<^verbatim>\<open>process.memoryUsage()\<close>, \<^verbatim>\<open>process.env.NODE_ENV\<close> and the ISO string of the date.
\<close>

record process =
  uptime :: real
  heapUsed :: nat
  heapTotal :: nat
  NODE_ENV :: "string option"
  now_iso :: string

record memory =
  used :: int
  total :: int
  unit :: string

record healthcheck =
  status_field :: string
  uptime_field :: real
  timestamp :: string
  environment :: string
  memory_field :: memory

datatype body = Health healthcheck | Ready bool | Alive bool

record response =
  code :: nat
  json :: body

text \<open>\<^verbatim>\<open>Math.round\<close>\<close>

definition js_round :: "real \<Rightarrow> int" where
  "js_round x = \<lfloor>x + 1 / 2\<rfloor>"

text \<open>\<^verbatim>\<open>process.env.NODE_ENV || 'development'\<close>: an unset or empty variable gives the default.\<close>

definition node_env :: "process \<Rightarrow> string" where
  "node_env p = (case NODE_ENV p of None \<Rightarrow> ''development''
                 | Some v \<Rightarrow> if v = [] then ''development'' else v)"

text \<open>\<^verbatim>\<open>router.get('/', ...)\<close>\<close>

definition health_get :: "process \<Rightarrow> response" where
  "health_get p =
     \<lparr>code = 200,
      json = Health
        \<lparr>status_field = ''OK'',
         uptime_field = uptime p,
         timestamp = now_iso p,
         environment = node_env p,
         memory_field =
           \<lparr>used = js_round (real (heapUsed p) / 1024 / 1024),
            total = js_round (real (heapTotal p) / 1024 / 1024),
            unit = ''MB''\<rparr>\<rparr>\<rparr>"

text \<open>\<^verbatim>\<open>router.get('/ready', ...)\<close>, with its constant \<^verbatim>\<open>isReady = true\<close>.\<close>

definition ready_get :: "process \<Rightarrow> response" where
  "ready_get p =
     (let isReady = True in
      if isReady then \<lparr>code = 200, json = Ready True\<rparr>
      else \<lparr>code = 503, json = Ready False\<rparr>)"

text \<open>\<^verbatim>\<open>router.get('/live', ...)\<close>\<close>

definition live_get :: "process \<Rightarrow> response" where
  "live_get p = \<lparr>code = 200, json = Alive True\<rparr>"

section \<open>Notions used by the properties\<close>

text \<open>The configuration a run selects from its first argument and the server variables.\<close>

definition config_of :: "invocation \<Rightarrow> config option" where
  "config_of w = env_config (default_staging (arg1 w)) (STAGING_SERVER w) (PRODUCTION_SERVER w)"

text \<open>
  A well-formed tree: no directory holds two entries of one name, and every entry was
  written before the present time of the remote host.
\<close>

definition wf_remote :: "remote \<Rightarrow> bool" where
  "wf_remote r =
     (distinct (map fst (releases r)) \<and> distinct (map fst (toplevel r)) \<and>
      (\<forall>e \<in> set (releases r). snd e < clock r) \<and>
      (\<forall>e \<in> set (toplevel r). snd e < clock r))"

text \<open>
  The pointer \<^verbatim>\<open>current\<close> is there and names a release directory that exists or a
  backup directory that exists.
\<close>

definition resolves :: "string \<Rightarrow> remote \<Rightarrow> bool" where
  "resolves base r =
     (case current r of
        None \<Rightarrow> False
      | Some t \<Rightarrow>
          (case strip_prefix (base @ ''/releases/'') t of
             Some n \<Rightarrow> n \<in> set (map fst (releases r))
           | None \<Rightarrow>
               (case strip_prefix (base @ ''/'') t of
                  Some n \<Rightarrow> glob_backup n \<and> n \<in> set (map fst (toplevel r))
                | None \<Rightarrow> False)))"

text \<open>Whether the deployment script is given a file for \<^verbatim>\<open>.env\<close> in its environment.\<close>

definition env_file_given :: "invocation \<Rightarrow> bool" where
  "env_file_given w =
     (default_staging (arg1 w) = ''staging'' \<and> STAGING_ENV_FILE w \<noteq> [] \<or>
      default_staging (arg1 w) = ''production'' \<and> PRODUCTION_ENV_FILE w \<noteq> [])"

text \<open>
  The deployment reaches its health check: the validation passes, and the upload, the
  installation and the restart succeed.
\<close>

definition deploy_ready :: "invocation \<Rightarrow> config \<Rightarrow> bool" where
  "deploy_ready w cfg =
     (config_of w = Some cfg \<and> REMOTE_HOST cfg \<noteq> [] \<and> build_dir w \<and>
      status w C_mkdir = 0 \<and> status w C_rsync = 0 \<and> status w C_scp_package = 0 \<and>
      status w C_npm_ci = 0 \<and> (env_file_given w \<longrightarrow> status w C_scp_env = 0) \<and>
      status w C_pm2_save = 0)"

text \<open>The rollback is given a target, the validation passes and the target is looked up.\<close>

definition rollback_valid :: "invocation \<Rightarrow> config \<Rightarrow> bool" where
  "rollback_valid w cfg =
     (config_of w = Some cfg \<and> REMOTE_HOST cfg \<noteq> [] \<and> arg2 w \<noteq> [])"

text \<open>
  The rollback reaches its health check: the target is there, the operator answers
  \<^verbatim>\<open>yes\<close> and the restart succeeds.
\<close>

definition rollback_ready :: "invocation \<Rightarrow> config \<Rightarrow> remote \<Rightarrow> bool" where
  "rollback_ready w cfg r =
     (rollback_valid w cfg \<and>
      dir_exists (REMOTE_PATH cfg) r (rollback_path (REMOTE_PATH cfg) (arg2 w)) \<and>
      answer w = Some ''yes'' \<and> status w C_pm2_save = 0)"

text \<open>The health request fails at each of the listed attempts.\<close>

definition failing :: "invocation \<Rightarrow> nat list \<Rightarrow> bool" where
  "failing w ks = (\<forall>k \<in> set ks. \<not> attempt_passes w k)"

text \<open>The health check passes at one of the five attempts.\<close>

definition passing :: "invocation \<Rightarrow> bool" where
  "passing w = (\<exists>k \<in> set [1, 2, 3, 4, 5]. attempt_passes w k)"

text \<open>None of the four cleanup commands fails.\<close>

definition cleanup_ok :: "invocation \<Rightarrow> bool" where
  "cleanup_ok w =
     (status w C_cd_releases = 0 \<and> status w C_rm_releases = 0 \<and>
      status w C_cd_root = 0 \<and> status w C_rm_backups = 0)"

fun is_request :: "action \<Rightarrow> bool" where
  "is_request (Curl u) = True"
| "is_request a = False"

fun is_sleep :: "action \<Rightarrow> bool" where
  "is_sleep (Sleep n) = True"
| "is_sleep a = False"

definition actions :: "run \<Rightarrow> action list" where
  "actions ru = map fst (trace ru)"

text \<open>The health requests and the sleeps of a run; the same from the first request on.\<close>

definition polls :: "run \<Rightarrow> action list" where
  "polls ru = filter (\<lambda>a. is_request a \<or> is_sleep a) (actions ru)"

definition poll_events :: "run \<Rightarrow> action list" where
  "poll_events ru = dropWhile (\<lambda>a. \<not> is_request a) (polls ru)"

text \<open>Five requests to the health URL with a sleep of ten seconds between them.\<close>

definition five_attempts :: "config \<Rightarrow> action list" where
  "five_attempts cfg =
     [Curl (HEALTH_CHECK_URL cfg), Sleep 10, Curl (HEALTH_CHECK_URL cfg), Sleep 10,
      Curl (HEALTH_CHECK_URL cfg), Sleep 10, Curl (HEALTH_CHECK_URL cfg), Sleep 10,
      Curl (HEALTH_CHECK_URL cfg)]"

text \<open>The backup directories of a tree: the top-level entries that \<^verbatim>\<open>backup_*\<close> matches.\<close>

definition backups :: "remote \<Rightarrow> entry list" where
  "backups r = filter (\<lambda>e. glob_backup (fst e)) (toplevel r)"

text \<open>The remote states a run goes through, the last one included.\<close>

definition states :: "run \<Rightarrow> remote set" where
  "states ru = insert (final ru) (snd ` set (trace ru))"

text \<open>The actions that write to the remote host.\<close>

fun mutating :: "action \<Rightarrow> bool" where
  "mutating (CopyDir s d) = True"
| "mutating (MakeDir p) = True"
| "mutating (Rsync p) = True"
| "mutating (Scp p) = True"
| "mutating (NpmCi p) = True"
| "mutating (Symlink t l) = True"
| "mutating (Pm2Restart a) = True"
| "mutating (Pm2Start f) = True"
| "mutating Pm2Save = True"
| "mutating (Remove d ns) = True"
| "mutating a = False"

text \<open>What a run does before it reads the confirmation.\<close>

definition before_confirm :: "run \<Rightarrow> (action \<times> remote) list" where
  "before_confirm ru = takeWhile (\<lambda>x. fst x \<noteq> ReadConfirm) (trace ru)"

text \<open>What a run does after its last health request.\<close>

definition since_last_request :: "run \<Rightarrow> action list" where
  "since_last_request ru = rev (takeWhile (\<lambda>a. \<not> is_request a) (rev (actions ru)))"

text \<open>
  The tree as the deployment has it at its health check: the backup when there is a
  current deployment, the release directory with its dependencies, the pointer on the
  new release, one restart.
\<close>

definition activated :: "config \<Rightarrow> invocation \<Rightarrow> remote \<Rightarrow> remote" where
  "activated cfg w r =
     (let r2 = install_deps w (make_release w
                 (if current_is_dir (REMOTE_PATH cfg) r then backup_current w r else r))
      in r2\<lparr>current := Some (RELEASE_DIR cfg w), restarts := Suc (restarts r2)\<rparr>)"

text \<open>
  The tree as the rollback has it at its health check: the copy of the current target
  when that target is there, the pointer on the rollback target, one restart.
\<close>

definition switched :: "config \<Rightarrow> invocation \<Rightarrow> remote \<Rightarrow> remote" where
  "switched cfg w r =
     (let r1 = (case current r of
                  None \<Rightarrow> r
                | Some t \<Rightarrow> if dir_exists (REMOTE_PATH cfg) r t then snapshot w r else r)
      in r1\<lparr>current := Some (rollback_path (REMOTE_PATH cfg) (arg2 w)),
             restarts := Suc (restarts r1)\<rparr>)"

text \<open>The release of this run is in the tree and is newer than every other release.\<close>

definition newest_release :: "invocation \<Rightarrow> remote \<Rightarrow> bool" where
  "newest_release w r =
     (\<exists>t. (TIMESTAMP w, t) \<in> set (releases r) \<and>
          (\<forall>e \<in> set (releases r). fst e \<noteq> TIMESTAMP w \<longrightarrow> snd e < t))"

text \<open>The same invocation with no failure in the cleanup commands.\<close>

definition clean_cleanup :: "invocation \<Rightarrow> invocation" where
  "clean_cleanup w =
     w\<lparr>status := (status w)(C_cd_releases := 0, C_rm_releases := 0,
                             C_cd_root := 0, C_rm_backups := 0)\<rparr>"

text \<open>The criterion of the specification for one health check: a status code 2xx in time.\<close>

definition two_xx :: "http_outcome \<Rightarrow> bool" where
  "two_xx out = (case out of Responded c \<Rightarrow> 200 \<le> c \<and> c < 300 | _ \<Rightarrow> False)"


section \<open>Concrete inputs\<close>

text \<open>
  A staging tree with six releases, three backups and one copy left by a rollback, and
  invocations on it: a healthy deployment, one whose health URL never answers, one
  that answers at the fifth attempt, one that answers with a redirect, one whose
  cleanup commands fail, and rollbacks to a release (with the same health answers), to
  a backup (declined at the prompt), to the copy left by a rollback and to a missing
  target. The tree before the first deployment has no directory and no pointer.
\<close>

definition r_six :: remote where
  "r_six =
     \<lparr>releases = [(''20240101_000000'', 1), (''20240102_000000'', 2), (''20240103_000000'', 3),
                  (''20240104_000000'', 4), (''20240105_000000'', 5), (''20240106_000000'', 6)],
      toplevel = [(''backup_20240104_000000'', 4), (''backup_20240105_000000'', 5),
                  (''backup_20240106_000000'', 6), (''rollback_backup_20240103_120000'', 7)],
      current = Some ''/var/www/my-app/staging/releases/20240106_000000'',
      clock = 8,
      restarts = 0\<rparr>"

definition r_first :: remote where
  "r_first = \<lparr>releases = [], toplevel = [], current = None, clock = 1, restarts = 0\<rparr>"

definition w_healthy :: invocation where
  "w_healthy =
     \<lparr>arg1 = ''staging'', arg2 = [],
      STAGING_SERVER = ''staging.internal'', PRODUCTION_SERVER = [],
      STAGING_ENV_FILE = [], PRODUCTION_ENV_FILE = [], SLACK_WEBHOOK_URL = [],
      build_dir = True, TIMESTAMP = ''20240107_000000'', answer = None,
      health = (\<lambda>k. Responded 200), status = (\<lambda>c. 0)\<rparr>"

definition w_down :: invocation where
  "w_down = w_healthy\<lparr>health := (\<lambda>k. Refused)\<rparr>"

definition w_fifth :: invocation where
  "w_fifth = w_healthy\<lparr>health := (\<lambda>k. if k < 5 then TimedOut else Responded 200)\<rparr>"

definition w_redirect :: invocation where
  "w_redirect = w_healthy\<lparr>health := (\<lambda>k. Responded 301)\<rparr>"

definition w_no_build :: invocation where
  "w_no_build = w_healthy\<lparr>build_dir := False\<rparr>"

definition w_cleanup_fails :: invocation where
  "w_cleanup_fails =
     w_healthy\<lparr>status := (\<lambda>c. if c = C_rm_releases \<or> c = C_cd_root then 1 else 0)\<rparr>"

definition w_to_release :: invocation where
  "w_to_release = w_healthy\<lparr>arg2 := ''20240105_000000'', answer := Some ''yes''\<rparr>"

definition w_to_backup :: invocation where
  "w_to_backup = w_healthy\<lparr>arg2 := ''backup_20240105_000000'', answer := Some ''no''\<rparr>"

definition w_rollback_fifth :: invocation where
  "w_rollback_fifth = w_to_release\<lparr>health := (\<lambda>k. if k < 5 then TimedOut else Responded 200)\<rparr>"

definition w_rollback_down :: invocation where
  "w_rollback_down = w_to_release\<lparr>health := (\<lambda>k. Responded 503)\<rparr>"

definition w_to_snapshot :: invocation where
  "w_to_snapshot =
     w_healthy\<lparr>arg2 := ''rollback_backup_20240103_120000'', answer := Some ''yes''\<rparr>"

definition w_to_missing :: invocation where
  "w_to_missing = w_healthy\<lparr>arg2 := ''20231231_000000'', answer := Some ''yes''\<rparr>"

definition staging :: config where
  "staging =
     \<lparr>REMOTE_HOST = ''staging.internal'', REMOTE_PATH = ''/var/www/my-app/staging'',
      PM2_APP_NAME = ''my-app-staging'',
      HEALTH_CHECK_URL = ''https://staging.example.com/health''\<rparr>"

definition p_idle :: process where
  "p_idle =
     \<lparr>uptime = 12, heapUsed = 20971520, heapTotal = 33554432,
      NODE_ENV = Some ''production'', now_iso = ''2024-01-07T00:00:00.000Z''\<rparr>"

section \<open>Basic facts\<close>

subsection \<open>Runs\<close>


lemma exit_with_simps [simp]:
  "exit_code (exit_with n r) = n" "final (exit_with n r) = r" "trace (exit_with n r) = []"
  by (simp_all add: exit_with_def)

lemma act_simps [simp]:
  "exit_code (act a r k) = exit_code k" "final (act a r k) = final k"
  "trace (act a r k) = (a, r) # trace k"
  by (simp_all add: act_def)

lemma errexit_simps [simp]:
  "errexit 0 r k = k" "st \<noteq> 0 \<Longrightarrow> errexit st r k = exit_with st r"
  by (simp_all add: errexit_def)

lemma actions_simps [simp]:
  "actions (act a r k) = a # actions k" "actions (exit_with n r) = []"
  by (simp_all add: actions_def)

lemma polls_simps [simp]:
  "polls (act a r k) = (if is_request a \<or> is_sleep a then a # polls k else polls k)"
  "polls (exit_with n r) = []"
  by (simp_all add: polls_def)

lemma states_simps [simp]:
  "states (act a r k) = insert r (states k)" "states (exit_with n r) = {r}"
  by (auto simp: states_def)

declare deploy_health_loop.simps [simp del] rollback_health_loop.simps [simp del]

lemma digits_small [simp]: "n < 10 \<Longrightarrow> digits n = [''0123456789'' ! n]"
  by simp

declare digits.simps [simp del]

lemma rev_takeWhile_all:
  assumes "\<forall>x \<in> set xs. P x"
  shows "rev (takeWhile P (rev xs)) = xs"
proof -
  have "\<forall>x \<in> set (rev xs). P x"
    using assms by simp
  then have "takeWhile P (rev xs) = rev xs"
    by (simp only: takeWhile_eq_all_conv)
  then show ?thesis by (simp only: rev_rev_ident)
qed

lemma since_last_request_act:
  "since_last_request (act a r k) =
     (if \<exists>x \<in> set (actions k). is_request x then since_last_request k
      else if is_request a then actions k else a # since_last_request k)"
  by (auto simp: since_last_request_def takeWhile_append rev_takeWhile_all)

lemma since_last_request_exit [simp]: "since_last_request (exit_with n r) = []"
  by (simp add: since_last_request_def)


subsection \<open>Paths\<close>

lemma strip_prefix_append [simp]: "strip_prefix (p @ q) (p @ s) = strip_prefix q s"
  by (induction p) simp_all

lemma strip_prefix_self [simp]: "strip_prefix p (p @ s) = Some s"
  using strip_prefix_append [of p "[]" s] by simp

lemma glob_backup_append [simp]: "glob_backup (''backup_'' @ s)"
  by (simp add: glob_backup_def)

lemma glob_backup_iff: "glob_backup v = (\<exists>s. v = ''backup_'' @ s)"
proof
  assume "glob_backup v"
  then have a: "take 7 v = ''backup_''"
    by (simp add: glob_backup_def)
  have "take 7 v @ drop 7 v = v"
    by (rule append_take_drop_id)
  then have "v = ''backup_'' @ drop 7 v"
    by (simp only: a)
  then show "\<exists>s. v = ''backup_'' @ s" ..
next
  assume "\<exists>s. v = ''backup_'' @ s"
  then show "glob_backup v" by (auto simp: glob_backup_def)
qed

lemma glob_backup_not_releases: "glob_backup v \<Longrightarrow> strip_prefix ''releases/'' v = None"
  by (auto simp: glob_backup_iff)

lemma not_glob_rollback_backup [simp]: "\<not> glob_backup (''rollback_backup_'' @ ts)"
  by (simp add: glob_backup_def)

lemma dir_exists_backup:
  "dir_exists base r (base @ ''/backup_'' @ ts) = (''backup_'' @ ts \<in> fst ` set (toplevel r))"
proof -
  have "strip_prefix (base @ ''/'') (base @ ''/backup_'' @ ts) = Some (''backup_'' @ ts)"
    using strip_prefix_append [of base "''/''" "''/backup_'' @ ts"] by simp
  then show ?thesis by (simp add: dir_exists_def)
qed

lemma dir_exists_release:
  "dir_exists base r (base @ ''/releases/'' @ n) = (n \<in> fst ` set (releases r))"
proof -
  have "strip_prefix (base @ ''/'') (base @ ''/releases/'' @ n) = Some (''releases/'' @ n)"
    using strip_prefix_append [of base "''/''" "''/releases/'' @ n"] by simp
  moreover have "strip_prefix ''releases/'' (''releases/'' @ n) = Some n"
    by (rule strip_prefix_self)
  ultimately show ?thesis by (simp add: dir_exists_def)
qed

lemma dir_exists_toplevel:
  assumes "glob_backup v"
  shows "dir_exists base r (base @ ''/'' @ v) = (v \<in> fst ` set (toplevel r))"
proof -
  have "strip_prefix (base @ ''/'') (base @ ''/'' @ v) = Some v"
    using strip_prefix_self [of "base @ ''/''" v] by simp
  then show ?thesis
    using glob_backup_not_releases [OF assms] by (simp add: dir_exists_def)
qed

lemma dir_exists_rollback_path:
  "dir_exists base r (rollback_path base v) =
     (if glob_backup v then v \<in> fst ` set (toplevel r) else v \<in> fst ` set (releases r))"
proof (cases "glob_backup v")
  case True
  then have "rollback_path base v = base @ ''/'' @ v"
    by (simp add: rollback_path_def)
  then show ?thesis
    using True dir_exists_toplevel [OF True, of base r] by (simp only: if_True)
next
  case False
  then have "rollback_path base v = base @ ''/releases/'' @ v"
    by (simp add: rollback_path_def)
  then show ?thesis
    using False dir_exists_release [of base r v] by (simp only: if_False)
qed

lemma resolves_release:
  "current r = Some (base @ ''/releases/'' @ n) \<Longrightarrow>
   resolves base r = (n \<in> fst ` set (releases r))"
proof -
  have "strip_prefix (base @ ''/releases/'') (base @ ''/releases/'' @ n) = Some n"
    using strip_prefix_self [of "base @ ''/releases/''" n] by simp
  then show "current r = Some (base @ ''/releases/'' @ n) \<Longrightarrow>
      resolves base r = (n \<in> fst ` set (releases r))"
    by (simp add: resolves_def)
qed

lemma resolves_backup:
  assumes "current r = Some (base @ ''/'' @ v)" "glob_backup v"
  shows "resolves base r = (v \<in> fst ` set (toplevel r))"
proof -
  obtain s where v: "v = ''backup_'' @ s"
    using assms(2) by (auto simp: glob_backup_iff)
  have "strip_prefix (base @ ''/releases/'') (base @ ''/'' @ v) = strip_prefix ''/releases/'' (''/'' @ v)"
    by (rule strip_prefix_append)
  then have a: "strip_prefix (base @ ''/releases/'') (base @ ''/'' @ v) = None"
    by (simp add: v)
  have b: "strip_prefix (base @ ''/'') (base @ ''/'' @ v) = Some v"
    using strip_prefix_self [of "base @ ''/''" v] by simp
  show ?thesis
    using assms a b by (simp add: resolves_def)
qed

lemma resolves_rollback_path:
  assumes "current r = Some (rollback_path base v)"
  shows "resolves base r = dir_exists base r (rollback_path base v)"
proof (cases "glob_backup v")
  case True
  then have p: "rollback_path base v = base @ ''/'' @ v"
    by (simp add: rollback_path_def)
  have "resolves base r = (v \<in> fst ` set (toplevel r))"
    using assms True by (intro resolves_backup) (simp_all only: p)
  then show ?thesis
    using dir_exists_toplevel [OF True, of base r] by (simp only: p)
next
  case False
  then have p: "rollback_path base v = base @ ''/releases/'' @ v"
    by (simp add: rollback_path_def)
  have "resolves base r = (v \<in> fst ` set (releases r))"
    using assms by (intro resolves_release) (simp only: p)
  then show ?thesis
    using dir_exists_release [of base r v] by (simp only: p)
qed


subsection \<open>The health loops, one step at a time\<close>

lemma deploy_loop_pass:
  "ATTEMPT \<le> MAX_ATTEMPTS \<Longrightarrow> attempt_passes w ATTEMPT \<Longrightarrow>
   deploy_health_loop cfg w ATTEMPT r after =
     act (Log INFO (''Health check attempt '' @ digits ATTEMPT @ ''/''
                     @ digits MAX_ATTEMPTS @ ''...'')) r
    (act (Curl (HEALTH_CHECK_URL cfg)) r
    (act (Log INFO ''Health check passed!'') r after))"
  by (subst deploy_health_loop.simps) simp

lemma deploy_loop_retry:
  "ATTEMPT < MAX_ATTEMPTS \<Longrightarrow> \<not> attempt_passes w ATTEMPT \<Longrightarrow>
   deploy_health_loop cfg w ATTEMPT r after =
     act (Log INFO (''Health check attempt '' @ digits ATTEMPT @ ''/''
                     @ digits MAX_ATTEMPTS @ ''...'')) r
    (act (Curl (HEALTH_CHECK_URL cfg)) r
    (act (Log WARN ''Health check failed, retrying in 10 seconds...'') r
    (act (Sleep 10) r
    (deploy_health_loop cfg w (Suc ATTEMPT) r after))))"
  by (subst deploy_health_loop.simps) simp

lemma deploy_loop_exhaust:
  "\<not> attempt_passes w MAX_ATTEMPTS \<Longrightarrow>
   deploy_health_loop cfg w MAX_ATTEMPTS r after =
     act (Log INFO (''Health check attempt '' @ digits MAX_ATTEMPTS @ ''/''
                     @ digits MAX_ATTEMPTS @ ''...'')) r
    (act (Curl (HEALTH_CHECK_URL cfg)) r
    (deploy_revert cfg w r))"
  by (subst deploy_health_loop.simps) simp

lemma deploy_loop_has_request:
  "ATTEMPT \<le> MAX_ATTEMPTS \<Longrightarrow>
   \<exists>x \<in> set (actions (deploy_health_loop cfg w ATTEMPT r after)). is_request x"
  by (subst deploy_health_loop.simps) simp

lemma rollback_loop_pass:
  "ATTEMPT \<le> MAX_ATTEMPTS \<Longrightarrow> attempt_passes w ATTEMPT \<Longrightarrow>
   rollback_health_loop cfg w ATTEMPT r after =
     act (Log INFO (''Health check attempt '' @ digits ATTEMPT @ ''/''
                     @ digits MAX_ATTEMPTS @ ''...'')) r
    (act (Curl (HEALTH_CHECK_URL cfg)) r
    (act (Log INFO ''Health check passed!'') r after))"
  by (subst rollback_health_loop.simps) simp

lemma rollback_loop_retry:
  "ATTEMPT < MAX_ATTEMPTS \<Longrightarrow> \<not> attempt_passes w ATTEMPT \<Longrightarrow>
   rollback_health_loop cfg w ATTEMPT r after =
     act (Log INFO (''Health check attempt '' @ digits ATTEMPT @ ''/''
                     @ digits MAX_ATTEMPTS @ ''...'')) r
    (act (Curl (HEALTH_CHECK_URL cfg)) r
    (act (Log WARN ''Health check failed, retrying...'') r
    (act (Sleep 10) r
    (rollback_health_loop cfg w (Suc ATTEMPT) r after))))"
  by (subst rollback_health_loop.simps) simp

lemma rollback_loop_exhaust:
  "\<not> attempt_passes w MAX_ATTEMPTS \<Longrightarrow>
   rollback_health_loop cfg w MAX_ATTEMPTS r after =
     act (Log INFO (''Health check attempt '' @ digits MAX_ATTEMPTS @ ''/''
                     @ digits MAX_ATTEMPTS @ ''...'')) r
    (act (Curl (HEALTH_CHECK_URL cfg)) r
    (rollback_alert w r))"
  by (subst rollback_health_loop.simps) simp

lemma rollback_loop_has_request:
  "ATTEMPT \<le> MAX_ATTEMPTS \<Longrightarrow>
   \<exists>x \<in> set (actions (rollback_health_loop cfg w ATTEMPT r after)). is_request x"
  by (subst rollback_health_loop.simps) simp

subsection \<open>A run that reaches its health check\<close>

lemma deploy_activate_has_request:
  "status w C_pm2_save = 0 \<Longrightarrow>
   \<exists>x \<in> set (actions (deploy_activate cfg w env r)). is_request x"
  by (simp add: deploy_activate_def Let_def remote_status_def deploy_loop_has_request
      MAX_ATTEMPTS_def)

lemma deploy_activate_ok:
  fixes cfg w env r
  assumes "status w C_pm2_save = 0"
  defines "r2 \<equiv> r\<lparr>current := Some (RELEASE_DIR cfg w), restarts := Suc (restarts r)\<rparr>"
  defines "L \<equiv> deploy_health_loop cfg w 1 r2 (deploy_cleanup cfg w env r2)"
  shows "exit_code (deploy_activate cfg w env r) = exit_code L"
    and "final (deploy_activate cfg w env r) = final L"
    and "polls (deploy_activate cfg w env r) = Sleep 10 # polls L"
    and "since_last_request (deploy_activate cfg w env r) = since_last_request L"
    and "set (actions L) \<subseteq> set (actions (deploy_activate cfg w env r))"
  using assms(1) unfolding L_def r2_def
  by (auto simp: deploy_activate_def Let_def remote_status_def since_last_request_act
      deploy_loop_has_request MAX_ATTEMPTS_def)

lemma deploy_upload_ok:
  fixes cfg w env r
  assumes "status w C_mkdir = 0" "status w C_rsync = 0" "status w C_scp_package = 0"
    "status w C_npm_ci = 0" "status w C_pm2_save = 0"
    "env = ''staging'' \<and> STAGING_ENV_FILE w \<noteq> [] \<or>
     env = ''production'' \<and> PRODUCTION_ENV_FILE w \<noteq> [] \<longrightarrow> status w C_scp_env = 0"
  defines "A \<equiv> deploy_activate cfg w env (install_deps w (make_release w r))"
  shows "exit_code (deploy_upload cfg w env r) = exit_code A"
    and "final (deploy_upload cfg w env r) = final A"
    and "polls (deploy_upload cfg w env r) = polls A"
    and "since_last_request (deploy_upload cfg w env r) = since_last_request A"
    and "set (actions A) \<subseteq> set (actions (deploy_upload cfg w env r))"
  using assms(1-6) unfolding A_def
  by (auto simp: deploy_upload_def Let_def remote_status_def since_last_request_act
      deploy_activate_has_request)

lemma deploy_upload_has_request:
  assumes "status w C_mkdir = 0" "status w C_rsync = 0" "status w C_scp_package = 0"
    "status w C_npm_ci = 0" "status w C_pm2_save = 0"
    "env = ''staging'' \<and> STAGING_ENV_FILE w \<noteq> [] \<or>
     env = ''production'' \<and> PRODUCTION_ENV_FILE w \<noteq> [] \<longrightarrow> status w C_scp_env = 0"
  shows "\<exists>x \<in> set (actions (deploy_upload cfg w env r)). is_request x"
  using assms
  by (simp add: deploy_upload_def Let_def remote_status_def deploy_activate_has_request)

lemma deploy_ready_run:
  fixes w cfg r
  assumes "deploy_ready w cfg"
  defines "L \<equiv> deploy_health_loop cfg w 1 (activated cfg w r)
                  (deploy_cleanup cfg w (default_staging (arg1 w)) (activated cfg w r))"
  shows "exit_code (deploy w r) = exit_code L"
    and "final (deploy w r) = final L"
    and "polls (deploy w r) = Sleep 10 # polls L"
    and "since_last_request (deploy w r) = since_last_request L"
  using assms(1) unfolding L_def
  by (simp_all add: deploy_ready_def config_of_def deploy_def
      Let_def remote_status_def activated_def env_file_given_def since_last_request_act
      deploy_upload_ok deploy_activate_ok deploy_upload_has_request)

lemma deploy_ready_actions:
  fixes w cfg r
  assumes "deploy_ready w cfg"
  defines "L \<equiv> deploy_health_loop cfg w 1 (activated cfg w r)
                  (deploy_cleanup cfg w (default_staging (arg1 w)) (activated cfg w r))"
  shows "set (actions L) \<subseteq> set (actions (deploy w r))"
proof -
  define env where "env = default_staging (arg1 w)"
  define r0 where "r0 = (if current_is_dir (REMOTE_PATH cfg) r then backup_current w r else r)"
  define r2 where "r2 = install_deps w (make_release w r0)"
  have ok: "status w C_mkdir = 0" "status w C_rsync = 0" "status w C_scp_package = 0"
    "status w C_npm_ci = 0" "status w C_pm2_save = 0"
    "env = ''staging'' \<and> STAGING_ENV_FILE w \<noteq> [] \<or>
     env = ''production'' \<and> PRODUCTION_ENV_FILE w \<noteq> [] \<longrightarrow> status w C_scp_env = 0"
    using assms(1) by (auto simp: deploy_ready_def env_file_given_def env_def)
  have "L = deploy_health_loop cfg w 1
              (r2\<lparr>current := Some (RELEASE_DIR cfg w), restarts := Suc (restarts r2)\<rparr>)
              (deploy_cleanup cfg w env
                (r2\<lparr>current := Some (RELEASE_DIR cfg w), restarts := Suc (restarts r2)\<rparr>))"
    by (simp add: L_def activated_def Let_def r2_def r0_def env_def)
  then have "set (actions L) \<subseteq> set (actions (deploy_activate cfg w env r2))"
    using deploy_activate_ok(5) [OF ok(5), where cfg=cfg and env=env and r=r2] by simp
  also have "\<dots> \<subseteq> set (actions (deploy_upload cfg w env r0))"
    unfolding r2_def by (rule deploy_upload_ok(5) [OF ok])
  also have "\<dots> \<subseteq> set (actions (deploy w r))"
    using assms(1)
    by (auto simp: deploy_ready_def config_of_def deploy_def Let_def remote_status_def
        r0_def env_def)
  finally show ?thesis .
qed


lemma rollback_found:
  assumes "rollback_valid w cfg"
    "dir_exists (REMOTE_PATH cfg) r (rollback_path (REMOTE_PATH cfg) (arg2 w))"
  shows "rollback w r =
     act (Log WARN ''========================================='') r
    (act (Log WARN (''ROLLBACK INITIATED FOR: '' @ default_staging (arg1 w))) r
    (act (Log WARN ''========================================='') r
    (act (Log INFO ((if glob_backup (arg2 w) then ''Rolling back to backup: ''
                      else ''Rolling back to release: '') @ arg2 w)) r
    (act (Log INFO ''Verifying rollback target...'') r
    (act (TestDir (rollback_path (REMOTE_PATH cfg) (arg2 w))) r
    (rollback_confirm cfg w (default_staging (arg1 w)) (rollback_path (REMOTE_PATH cfg) (arg2 w)) r))))))"
  using assms
  by (simp add: rollback_valid_def config_of_def rollback_def rollback_verify_def Let_def
      remote_status_def)


subsection \<open>What each remote operation changes\<close>

lemma backup_current_fields [simp]:
  "releases (backup_current w r) = releases r"
  "toplevel (backup_current w r) = put (''backup_'' @ TIMESTAMP w) (clock r) (toplevel r)"
  "current (backup_current w r) = current r"
  "restarts (backup_current w r) = restarts r"
  "clock (backup_current w r) = Suc (clock r)"
  by (simp_all add: backup_current_def tick_def)

lemma make_release_fields [simp]:
  "toplevel (make_release w r) = toplevel r"
  "current (make_release w r) = current r"
  "restarts (make_release w r) = restarts r"
  by (simp_all add: make_release_def tick_def)

lemma install_deps_fields [simp]:
  "releases (install_deps w r) = put (TIMESTAMP w) (clock r) (releases r)"
  "toplevel (install_deps w r) = toplevel r"
  "current (install_deps w r) = current r"
  "restarts (install_deps w r) = restarts r"
  "clock (install_deps w r) = Suc (clock r)"
  by (simp_all add: install_deps_def tick_def)

lemma snapshot_fields [simp]:
  "releases (snapshot w r) = releases r"
  "toplevel (snapshot w r) = put (''rollback_backup_'' @ TIMESTAMP w) (clock r) (toplevel r)"
  "current (snapshot w r) = current r"
  "restarts (snapshot w r) = restarts r"
  "clock (snapshot w r) = Suc (clock r)"
  by (simp_all add: snapshot_def tick_def)

lemma prune_releases_fields [simp]:
  "toplevel (prune_releases w r) = toplevel r"
  "current (prune_releases w r) = current r"
  "restarts (prune_releases w r) = restarts r"
  "clock (prune_releases w r) = clock r"
  by (simp_all add: prune_releases_def)

lemma prune_backups_fields [simp]:
  "releases (prune_backups w r) = releases r"
  "current (prune_backups w r) = current r"
  "restarts (prune_backups w r) = restarts r"
  "clock (prune_backups w r) = clock r"
  by (simp_all add: prune_backups_def)

lemma names_put [simp]: "fst ` set (put n t es) = insert n (fst ` set es)"
  by (auto simp: put_def image_iff)

lemma activated_fields [simp]:
  "current (activated cfg w r) = Some (RELEASE_DIR cfg w)"
  "restarts (activated cfg w r) = Suc (restarts r)"
  "toplevel (activated cfg w r) =
     (if current_is_dir (REMOTE_PATH cfg) r
      then put (''backup_'' @ TIMESTAMP w) (clock r) (toplevel r) else toplevel r)"
  by (simp_all add: activated_def Let_def)


lemma rollback_absent:
  assumes "rollback_valid w cfg"
    "\<not> dir_exists (REMOTE_PATH cfg) r (rollback_path (REMOTE_PATH cfg) (arg2 w))"
  shows "exit_code (rollback w r) = 1" "final (rollback w r) = r" "states (rollback w r) = {r}"
    "\<forall>x \<in> set (trace (rollback w r)). \<not> mutating (fst x)"
  using assms
  by (simp_all add: rollback_valid_def config_of_def rollback_def rollback_verify_def Let_def
      remote_status_def)

section \<open>The health check and the health route\<close>





section \<open>The rollback up to the confirmation\<close>





text \<open>
  C8. A rollback whose target is there reads the confirmation with the remote tree
  untouched: nothing before the prompt writes to the remote host. An answer other than
  \<^verbatim>\<open>yes\<close> ends the run with exit code 0, the remote tree unchanged and no write at all.
\<close>

theorem rollback_confirmation_gate:
  assumes "rollback_valid w cfg"
    "dir_exists (REMOTE_PATH cfg) r (rollback_path (REMOTE_PATH cfg) (arg2 w))"
  shows "(ReadConfirm, r) \<in> set (trace (rollback w r)) \<and>
     (\<forall>x \<in> set (before_confirm (rollback w r)). snd x = r \<and> \<not> mutating (fst x)) \<and>
     (\<forall>c. answer w = Some c \<and> c \<noteq> ''yes'' \<longrightarrow>
        exit_code (rollback w r) = 0 \<and> final (rollback w r) = r \<and>
        (\<forall>x \<in> set (trace (rollback w r)). snd x = r \<and> \<not> mutating (fst x)))"
  unfolding rollback_found [OF assms]
  by (auto simp: rollback_confirm_def before_confirm_def)

text \<open>The rollback to a backup that is there, declined with \<^verbatim>\<open>no\<close>.\<close>

theorem rollback_confirmation_gate_witness:
  "rollback_valid w_to_backup staging \<and>
   dir_exists (REMOTE_PATH staging) r_six (rollback_path (REMOTE_PATH staging) (arg2 w_to_backup)) \<and>
   answer w_to_backup = Some ''no'' \<and> ''no'' \<noteq> ''yes'' \<and>
   (ReadConfirm, r_six) \<in> set (trace (rollback w_to_backup r_six)) \<and>
   (TestDir ''/var/www/my-app/staging/backup_20240105_000000'', r_six)
      \<in> set (before_confirm (rollback w_to_backup r_six)) \<and>
   exit_code (rollback w_to_backup r_six) = 0 \<and> final (rollback w_to_backup r_six) = r_six"
proof -
  have a: "rollback_valid w_to_backup staging"
    by (simp add: rollback_valid_def config_of_def env_config_def default_staging_def
        w_to_backup_def w_healthy_def staging_def APP_NAME_def)
  have b: "dir_exists (REMOTE_PATH staging) r_six
             (rollback_path (REMOTE_PATH staging) (arg2 w_to_backup))"
    by code_simp
  have c: "answer w_to_backup = Some ''no''"
    by (simp add: w_to_backup_def)
  have d: "(TestDir ''/var/www/my-app/staging/backup_20240105_000000'', r_six)
      \<in> set (before_confirm (rollback w_to_backup r_six))"
    by code_simp
  from rollback_confirmation_gate [OF a b] c d show ?thesis
    using a b by auto
qed

section \<open>The health poll of both scripts\<close>


lemma rollback_switch_ok:
  fixes cfg w env p r
  assumes "status w C_pm2_save = 0"
  defines "r2 \<equiv> r\<lparr>current := Some p, restarts := Suc (restarts r)\<rparr>"
  defines "L \<equiv> rollback_health_loop cfg w 1 r2 (rollback_success cfg w env r2)"
  shows "exit_code (rollback_switch cfg w env p r) = exit_code L"
    and "final (rollback_switch cfg w env p r) = final L"
    and "polls (rollback_switch cfg w env p r) = Sleep 10 # polls L"
    and "set (actions L) \<subseteq> set (actions (rollback_switch cfg w env p r))"
  using assms(1) unfolding L_def r2_def
  by (auto simp: rollback_switch_def Let_def remote_status_def)

lemma rollback_ready_run:
  fixes w cfg r
  assumes "rollback_ready w cfg r"
  defines "L \<equiv> rollback_health_loop cfg w 1 (switched cfg w r)
                  (rollback_success cfg w (default_staging (arg1 w)) (switched cfg w r))"
  shows "exit_code (rollback w r) = exit_code L"
    and "final (rollback w r) = final L"
    and "polls (rollback w r) = Sleep 10 # polls L"
proof -
  have v: "rollback_valid w cfg"
    and f: "dir_exists (REMOTE_PATH cfg) r (rollback_path (REMOTE_PATH cfg) (arg2 w))"
    and y: "answer w = Some ''yes''" and s: "status w C_pm2_save = 0"
    using assms(1) by (simp_all add: rollback_ready_def)
  note sw = rollback_switch_ok [OF s]
  show "exit_code (rollback w r) = exit_code L"
    and "final (rollback w r) = final L"
    and "polls (rollback w r) = Sleep 10 # polls L"
    unfolding rollback_found [OF v f] L_def
    using y
    by (simp_all add: rollback_confirm_def rollback_snapshot_def Let_def remote_status_def
        switched_def sw split: option.splits)
qed


lemma rollback_ready_actions:
  fixes w cfg r
  assumes "rollback_ready w cfg r"
  defines "L \<equiv> rollback_health_loop cfg w 1 (switched cfg w r)
                  (rollback_success cfg w (default_staging (arg1 w)) (switched cfg w r))"
  shows "set (actions L) \<subseteq> set (actions (rollback w r))"
proof -
  have v: "rollback_valid w cfg"
    and f: "dir_exists (REMOTE_PATH cfg) r (rollback_path (REMOTE_PATH cfg) (arg2 w))"
    and y: "answer w = Some ''yes''" and s: "status w C_pm2_save = 0"
    using assms(1) by (simp_all add: rollback_ready_def)
  define env where "env = default_staging (arg1 w)"
  define p where "p = rollback_path (REMOTE_PATH cfg) (arg2 w)"
  define r1 where "r1 = (case current r of None \<Rightarrow> r
     | Some t \<Rightarrow> if dir_exists (REMOTE_PATH cfg) r t then snapshot w r else r)"
  have "L = rollback_health_loop cfg w 1 (r1\<lparr>current := Some p, restarts := Suc (restarts r1)\<rparr>)
              (rollback_success cfg w env (r1\<lparr>current := Some p, restarts := Suc (restarts r1)\<rparr>))"
    by (simp add: L_def switched_def Let_def r1_def p_def env_def)
  then have "set (actions L) \<subseteq> set (actions (rollback_switch cfg w env p r1))"
    using rollback_switch_ok(4) [OF s, where cfg=cfg and env=env and r=r1 and p=p] by simp
  also have "\<dots> \<subseteq> set (actions (rollback w r))"
    unfolding rollback_found [OF v f]
    using y
    by (auto simp: rollback_confirm_def rollback_snapshot_def Let_def remote_status_def
        r1_def p_def env_def split: option.splits)
  finally show ?thesis .
qed

lemma polls_deploy_cleanup [simp]: "polls (deploy_cleanup cfg w env r) = []"
  by (simp add: deploy_cleanup_def deploy_notify_def Let_def remote_status_def errexit_def)

lemma polls_deploy_revert [simp]: "polls (deploy_revert cfg w r) = []"
  by (simp add: deploy_revert_def Let_def remote_status_def)

lemma polls_rollback_success [simp]: "polls (rollback_success cfg w env r) = []"
  by (simp add: rollback_success_def)

lemma polls_rollback_alert [simp]: "polls (rollback_alert w r) = []"
  by (simp add: rollback_alert_def)

lemma exit_code_deploy_revert [simp]: "exit_code (deploy_revert cfg w r) = 1"
  by (simp add: deploy_revert_def Let_def remote_status_def)

lemma exit_code_rollback_alert [simp]: "exit_code (rollback_alert w r) = 1"
  by (simp add: rollback_alert_def)

lemma deploy_loop_fifth:
  assumes "failing w [1, 2, 3, 4]" "attempt_passes w 5"
  shows "polls (deploy_health_loop cfg w 1 r after) = five_attempts cfg @ polls after"
    and "Log INFO ''Health check passed!'' \<in> set (actions (deploy_health_loop cfg w 1 r after))"
  using assms
  by (simp_all add: failing_def deploy_loop_retry deploy_loop_pass MAX_ATTEMPTS_def
      five_attempts_def eval_nat_numeral)

lemma deploy_loop_never:
  assumes "failing w [1, 2, 3, 4, 5]"
  shows "deploy_health_loop cfg w 1 r after =
     act (Log INFO ''Health check attempt 1/5...'') r
    (act (Curl (HEALTH_CHECK_URL cfg)) r
    (act (Log WARN ''Health check failed, retrying in 10 seconds...'') r
    (act (Sleep 10) r
    (act (Log INFO ''Health check attempt 2/5...'') r
    (act (Curl (HEALTH_CHECK_URL cfg)) r
    (act (Log WARN ''Health check failed, retrying in 10 seconds...'') r
    (act (Sleep 10) r
    (act (Log INFO ''Health check attempt 3/5...'') r
    (act (Curl (HEALTH_CHECK_URL cfg)) r
    (act (Log WARN ''Health check failed, retrying in 10 seconds...'') r
    (act (Sleep 10) r
    (act (Log INFO ''Health check attempt 4/5...'') r
    (act (Curl (HEALTH_CHECK_URL cfg)) r
    (act (Log WARN ''Health check failed, retrying in 10 seconds...'') r
    (act (Sleep 10) r
    (act (Log INFO ''Health check attempt 5/5...'') r
    (act (Curl (HEALTH_CHECK_URL cfg)) r
    (deploy_revert cfg w r))))))))))))))))))"
proof -
  have f: "\<not> attempt_passes w 1" "\<not> attempt_passes w 2" "\<not> attempt_passes w 3"
    "\<not> attempt_passes w 4" "\<not> attempt_passes w 5"
    using assms by (simp_all add: failing_def)
  have e: "deploy_health_loop cfg w 5 r after =
     act (Log INFO ''Health check attempt 5/5...'') r
    (act (Curl (HEALTH_CHECK_URL cfg)) r (deploy_revert cfg w r))"
    using deploy_loop_exhaust [of w cfg r after] f(5) by (simp add: MAX_ATTEMPTS_def)
  show ?thesis
    using f(1-4) e
    by (simp add: deploy_loop_retry MAX_ATTEMPTS_def eval_nat_numeral)
qed


lemma rollback_loop_fifth:
  assumes "failing w [1, 2, 3, 4]" "attempt_passes w 5"
  shows "polls (rollback_health_loop cfg w 1 r after) = five_attempts cfg @ polls after"
    and "exit_code (rollback_health_loop cfg w 1 r after) = exit_code after"
    and "Log INFO ''Health check passed!'' \<in> set (actions (rollback_health_loop cfg w 1 r after))"
  using assms
  by (simp_all add: failing_def rollback_loop_retry rollback_loop_pass MAX_ATTEMPTS_def
      five_attempts_def eval_nat_numeral)

lemma rollback_loop_never:
  assumes "failing w [1, 2, 3, 4, 5]"
  shows "polls (rollback_health_loop cfg w 1 r after) = five_attempts cfg"
    and "exit_code (rollback_health_loop cfg w 1 r after) = 1"
    and "Log ERROR ''Health check failed after rollback!''
           \<in> set (actions (rollback_health_loop cfg w 1 r after))"
proof -
  have f: "\<not> attempt_passes w 1" "\<not> attempt_passes w 2" "\<not> attempt_passes w 3"
    "\<not> attempt_passes w 4" "\<not> attempt_passes w 5"
    using assms by (simp_all add: failing_def)
  have e: "rollback_health_loop cfg w 5 r after =
     act (Log INFO ''Health check attempt 5/5...'') r
    (act (Curl (HEALTH_CHECK_URL cfg)) r (rollback_alert w r))"
    using rollback_loop_exhaust [of w cfg r after] f(5) by (simp add: MAX_ATTEMPTS_def)
  show "polls (rollback_health_loop cfg w 1 r after) = five_attempts cfg"
    and "exit_code (rollback_health_loop cfg w 1 r after) = 1"
    and "Log ERROR ''Health check failed after rollback!''
           \<in> set (actions (rollback_health_loop cfg w 1 r after))"
    using f(1-4) e
    by (simp_all add: rollback_loop_retry MAX_ATTEMPTS_def eval_nat_numeral five_attempts_def
        rollback_alert_def)
qed

lemma poll_events_settle: "polls ru = Sleep 10 # five_attempts cfg \<Longrightarrow> poll_events ru = five_attempts cfg"
  by (simp add: poll_events_def five_attempts_def)

text \<open>
  C3. In the deployment and in the rollback alike: when the health check fails at the
  first four attempts and passes at the fifth, the run makes exactly five requests with
  a sleep of ten seconds between them and reports the pass; when it fails at all five
  attempts, the run makes the same five requests, reports the failure and exits with
  code 1.
\<close>

theorem health_poll_five_attempts:
  "(deploy_ready w cfg \<and> failing w [1, 2, 3, 4] \<and> attempt_passes w 5 \<longrightarrow>
      poll_events (deploy w r) = five_attempts cfg \<and>
      Log INFO ''Health check passed!'' \<in> set (actions (deploy w r))) \<and>
   (deploy_ready w cfg \<and> failing w [1, 2, 3, 4, 5] \<longrightarrow>
      poll_events (deploy w r) = five_attempts cfg \<and>
      Log ERROR ''Health check failed after 5 attempts'' \<in> set (actions (deploy w r)) \<and>
      exit_code (deploy w r) = 1) \<and>
   (rollback_ready w cfg r \<and> failing w [1, 2, 3, 4] \<and> attempt_passes w 5 \<longrightarrow>
      poll_events (rollback w r) = five_attempts cfg \<and>
      Log INFO ''Health check passed!'' \<in> set (actions (rollback w r)) \<and>
      exit_code (rollback w r) = 0) \<and>
   (rollback_ready w cfg r \<and> failing w [1, 2, 3, 4, 5] \<longrightarrow>
      poll_events (rollback w r) = five_attempts cfg \<and>
      Log ERROR ''Health check failed after rollback!'' \<in> set (actions (rollback w r)) \<and>
      exit_code (rollback w r) = 1)"
proof (intro conjI impI; elim conjE)
  assume d: "deploy_ready w cfg" and f: "failing w [1, 2, 3, 4]" and p: "attempt_passes w 5"
  have "polls (deploy w r) = Sleep 10 # five_attempts cfg"
    unfolding deploy_ready_run(3) [OF d] deploy_loop_fifth(1) [OF f p] by simp
  then show "poll_events (deploy w r) = five_attempts cfg"
    by (rule poll_events_settle)
  show "Log INFO ''Health check passed!'' \<in> set (actions (deploy w r))"
    using deploy_ready_actions [OF d, of r] deploy_loop_fifth(2) [OF f p] by blast
next
  assume d: "deploy_ready w cfg" and f: "failing w [1, 2, 3, 4, 5]"
  note n = deploy_loop_never [OF f]
  have "polls (deploy w r) = Sleep 10 # five_attempts cfg"
    unfolding deploy_ready_run(3) [OF d] n by (simp add: five_attempts_def)
  then show "poll_events (deploy w r) = five_attempts cfg"
    by (rule poll_events_settle)
  have "Log ERROR ''Health check failed after 5 attempts''
      \<in> set (actions (deploy_health_loop cfg w 1 (activated cfg w r)
           (deploy_cleanup cfg w (default_staging (arg1 w)) (activated cfg w r))))"
    unfolding n by (simp add: deploy_revert_def MAX_ATTEMPTS_def)
  then show "Log ERROR ''Health check failed after 5 attempts'' \<in> set (actions (deploy w r))"
    using deploy_ready_actions [OF d, of r] by blast
  show "exit_code (deploy w r) = 1"
    unfolding deploy_ready_run(1) [OF d] n by simp
next
  assume d: "rollback_ready w cfg r" and f: "failing w [1, 2, 3, 4]" and p: "attempt_passes w 5"
  note l = rollback_loop_fifth [OF f p]
  have "polls (rollback w r) = Sleep 10 # five_attempts cfg"
    unfolding rollback_ready_run(3) [OF d] l(1) by simp
  then show "poll_events (rollback w r) = five_attempts cfg"
    by (rule poll_events_settle)
  show "Log INFO ''Health check passed!'' \<in> set (actions (rollback w r))"
    using rollback_ready_actions [OF d] l(3) by blast
  show "exit_code (rollback w r) = 0"
    unfolding rollback_ready_run(1) [OF d] l(2) by (simp add: rollback_success_def)
next
  assume d: "rollback_ready w cfg r" and f: "failing w [1, 2, 3, 4, 5]"
  note l = rollback_loop_never [OF f]
  have "polls (rollback w r) = Sleep 10 # five_attempts cfg"
    unfolding rollback_ready_run(3) [OF d] l(1) by simp
  then show "poll_events (rollback w r) = five_attempts cfg"
    by (rule poll_events_settle)
  show "Log ERROR ''Health check failed after rollback!'' \<in> set (actions (rollback w r))"
    using rollback_ready_actions [OF d] l(3) by blast
  show "exit_code (rollback w r) = 1"
    unfolding rollback_ready_run(1) [OF d] l(2) by simp
qed

text \<open>The deployment and the rollback to a release, answering at the fifth attempt and never.\<close>

theorem health_poll_five_attempts_witness:
  "deploy_ready w_fifth staging \<and> failing w_fifth [1, 2, 3, 4] \<and> attempt_passes w_fifth 5 \<and>
   poll_events (deploy w_fifth r_six) = five_attempts staging \<and>
   deploy_ready w_down staging \<and> failing w_down [1, 2, 3, 4, 5] \<and>
   poll_events (deploy w_down r_six) = five_attempts staging \<and>
   exit_code (deploy w_down r_six) = 1 \<and>
   rollback_ready w_rollback_fifth staging r_six \<and> failing w_rollback_fifth [1, 2, 3, 4] \<and>
   attempt_passes w_rollback_fifth 5 \<and>
   poll_events (rollback w_rollback_fifth r_six) = five_attempts staging \<and>
   exit_code (rollback w_rollback_fifth r_six) = 0 \<and>
   rollback_ready w_rollback_down staging r_six \<and> failing w_rollback_down [1, 2, 3, 4, 5] \<and>
   poll_events (rollback w_rollback_down r_six) = five_attempts staging \<and>
   exit_code (rollback w_rollback_down r_six) = 1"
proof -
  have a: "deploy_ready w_fifth staging" "failing w_fifth [1, 2, 3, 4]" "attempt_passes w_fifth 5"
    by code_simp+
  have b: "deploy_ready w_down staging" "failing w_down [1, 2, 3, 4, 5]"
    by code_simp+
  have c: "rollback_ready w_rollback_fifth staging r_six" "failing w_rollback_fifth [1, 2, 3, 4]"
    "attempt_passes w_rollback_fifth 5"
    by code_simp+
  have d: "rollback_ready w_rollback_down staging r_six" "failing w_rollback_down [1, 2, 3, 4, 5]"
    by code_simp+
  have ha: "deploy_ready w_fifth staging \<and> failing w_fifth [1, 2, 3, 4] \<and> attempt_passes w_fifth 5"
    using a by (intro conjI)
  have hb: "deploy_ready w_down staging \<and> failing w_down [1, 2, 3, 4, 5]"
    using b by (intro conjI)
  have hc: "rollback_ready w_rollback_fifth staging r_six \<and> failing w_rollback_fifth [1, 2, 3, 4]
      \<and> attempt_passes w_rollback_fifth 5"
    using c by (intro conjI)
  have hd: "rollback_ready w_rollback_down staging r_six \<and> failing w_rollback_down [1, 2, 3, 4, 5]"
    using d by (intro conjI)
  note ta = health_poll_five_attempts [of w_fifth staging r_six, THEN conjunct1, THEN mp, OF ha]
  note tb = health_poll_five_attempts [of w_down staging r_six, THEN conjunct2, THEN conjunct1,
      THEN mp, OF hb]
  note tc = health_poll_five_attempts [of w_rollback_fifth staging r_six, THEN conjunct2,
      THEN conjunct2, THEN conjunct1, THEN mp, OF hc]
  note td = health_poll_five_attempts [of w_rollback_down staging r_six, THEN conjunct2,
      THEN conjunct2, THEN conjunct2, THEN mp, OF hd]
  show ?thesis
    by (intro conjI a b c d ta [THEN conjunct1] tb [THEN conjunct1]
        tb [THEN conjunct2, THEN conjunct2] tc [THEN conjunct1]
        tc [THEN conjunct2, THEN conjunct2] td [THEN conjunct1]
        td [THEN conjunct2, THEN conjunct2])
qed

text \<open>
  C2. A deployment that found a current deployment (and so made its backup) and whose
  health check fails at all five attempts ends with \<^verbatim>\<open>current\<close> on that backup, not on
  the new release; after the last health request it only tests the backup, moves the
  pointer and restarts the process once (the second restart of the run), and it exits
  with code 1.
\<close>

theorem deploy_reverts_to_backup:
  assumes "deploy_ready w cfg" "current_is_dir (REMOTE_PATH cfg) r" "failing w [1, 2, 3, 4, 5]"
  shows "exit_code (deploy w r) = 1 \<and>
     dir_exists (REMOTE_PATH cfg) (final (deploy w r)) (BACKUP_DIR cfg w) \<and>
     current (final (deploy w r)) = Some (BACKUP_DIR cfg w) \<and>
     BACKUP_DIR cfg w \<noteq> RELEASE_DIR cfg w \<and>
     restarts (final (deploy w r)) = restarts r + 2 \<and>
     since_last_request (deploy w r) =
       [Log ERROR ''Health check failed after 5 attempts'', Log WARN ''Initiating rollback...'',
        TestDir (BACKUP_DIR cfg w), Symlink (BACKUP_DIR cfg w) (CURRENT cfg),
        Pm2Restart (PM2_APP_NAME cfg)]"
proof -
  note n = deploy_loop_never [OF assms(3)]
  have b: "dir_exists (REMOTE_PATH cfg) (activated cfg w r) (BACKUP_DIR cfg w)"
    unfolding BACKUP_DIR_def dir_exists_backup using assms(2) by simp
  have f: "final (deploy w r) =
      (activated cfg w r)\<lparr>current := Some (BACKUP_DIR cfg w),
                           restarts := Suc (Suc (restarts r))\<rparr>"
    unfolding deploy_ready_run(2) [OF assms(1)] n using b
    by (simp add: deploy_revert_def Let_def remote_status_def)
  have "dir_exists (REMOTE_PATH cfg) (final (deploy w r)) (BACKUP_DIR cfg w)"
    using b unfolding f BACKUP_DIR_def dir_exists_backup by simp
  moreover have "exit_code (deploy w r) = 1"
    unfolding deploy_ready_run(1) [OF assms(1)] n by simp
  moreover have "BACKUP_DIR cfg w \<noteq> RELEASE_DIR cfg w"
    by (simp add: BACKUP_DIR_def RELEASE_DIR_def)
  moreover have "since_last_request (deploy w r) =
       [Log ERROR ''Health check failed after 5 attempts'', Log WARN ''Initiating rollback...'',
        TestDir (BACKUP_DIR cfg w), Symlink (BACKUP_DIR cfg w) (CURRENT cfg),
        Pm2Restart (PM2_APP_NAME cfg)]"
    unfolding deploy_ready_run(4) [OF assms(1)] n using b
    by (simp add: since_last_request_act deploy_revert_def Let_def remote_status_def
        MAX_ATTEMPTS_def)
  ultimately show ?thesis by (simp add: f)
qed

text \<open>The deployment on the six-release tree whose health URL refuses every request.\<close>

theorem deploy_reverts_to_backup_witness:
  "deploy_ready w_down staging \<and> current_is_dir (REMOTE_PATH staging) r_six \<and>
   failing w_down [1, 2, 3, 4, 5] \<and>
   exit_code (deploy w_down r_six) = 1 \<and>
   current (final (deploy w_down r_six)) = Some ''/var/www/my-app/staging/backup_20240107_000000''"
proof -
  have a: "deploy_ready w_down staging" "current_is_dir (REMOTE_PATH staging) r_six"
    "failing w_down [1, 2, 3, 4, 5]"
    by code_simp+
  have b: "BACKUP_DIR staging w_down = ''/var/www/my-app/staging/backup_20240107_000000''"
    by code_simp
  note t = deploy_reverts_to_backup [OF a]
  have "current (final (deploy w_down r_six)) = Some ''/var/www/my-app/staging/backup_20240107_000000''"
    using t [THEN conjunct2, THEN conjunct2, THEN conjunct1] by (simp only: b)
  then show ?thesis
    by (intro conjI a t [THEN conjunct1])
qed

section \<open>Listings, retention and well-formed trees\<close>

lemma distinct_names_put: "distinct (map fst es) \<Longrightarrow> distinct (map fst (put n t es))"
  by (auto simp: put_def distinct_map_filter)

lemma distinct_names_rm_rf: "distinct (map fst es) \<Longrightarrow> distinct (map fst (rm_rf ns es))"
  by (simp add: rm_rf_def distinct_map_filter)

lemma set_rm_rf_subset: "set (rm_rf ns es) \<subseteq> set es"
  by (auto simp: rm_rf_def)

lemma set_put_subset: "set (put n t es) \<subseteq> insert (n, t) (set es)"
  by (auto simp: put_def)

lemma set_ls_t [simp]: "set (ls_t es) = set es"
  by (simp add: ls_t_def)

lemma length_ls_t [simp]: "length (ls_t es) = length es"
  by (simp add: ls_t_def)

lemma distinct_names_ls_t: "distinct (map fst (ls_t es)) = distinct (map fst es)"
  by (simp add: ls_t_def distinct_map)

lemma ls_key_le: "ls_key x \<le> ls_key y \<Longrightarrow> snd y \<le> snd x"
  by (auto simp: ls_key_def less_eq_prod_def)

lemma ls_t_newer_first:
  assumes "x \<in> set (take n (ls_t es))" "y \<in> set (drop n (ls_t es))"
  shows "snd y \<le> snd x"
proof -
  have "sorted (map ls_key (take n (ls_t es)) @ map ls_key (drop n (ls_t es)))"
    unfolding map_append [symmetric] append_take_drop_id
    by (simp add: ls_t_def)
  then have "ls_key x \<le> ls_key y"
    using assms by (auto simp: sorted_append)
  then show ?thesis by (rule ls_key_le)
qed

lemma ls_t_head_newest:
  assumes "y \<in> set es"
  shows "\<exists>x xs. ls_t es = x # xs \<and> snd y \<le> snd x"
proof (cases "ls_t es")
  case Nil
  then have "set (ls_t es) = {}" by simp
  then show ?thesis using assms by simp
next
  case (Cons x xs)
  have "sorted (map ls_key (ls_t es))"
    by (simp add: ls_t_def)
  moreover have "y \<in> set (ls_t es)"
    using assms by simp
  ultimately have "ls_key x \<le> ls_key y"
    unfolding Cons by auto
  then show ?thesis
    using Cons by (auto dest: ls_key_le)
qed

text \<open>Removing all but the first \<open>n\<close> names of the listing keeps the \<open>n\<close> newest entries.\<close>

lemma keep_newest_set:
  assumes "distinct (map fst es)"
  shows "set (rm_rf (map fst (drop n (ls_t es))) es) = set (take n (ls_t es))"
proof -
  have d: "distinct (map fst (take n (ls_t es)) @ map fst (drop n (ls_t es)))"
    unfolding map_append [symmetric] append_take_drop_id
    using assms by (simp add: distinct_names_ls_t)
  have s: "set es = set (take n (ls_t es)) \<union> set (drop n (ls_t es))"
    unfolding set_append [symmetric] append_take_drop_id by simp
  show ?thesis
  proof (intro set_eqI iffI)
    fix e
    assume "e \<in> set (rm_rf (map fst (drop n (ls_t es))) es)"
    then have "e \<in> set es" "fst e \<notin> fst ` set (drop n (ls_t es))"
      by (auto simp: rm_rf_def)
    then show "e \<in> set (take n (ls_t es))"
      using s by auto
  next
    fix e
    assume e: "e \<in> set (take n (ls_t es))"
    then have "fst e \<notin> fst ` set (drop n (ls_t es))"
      using d by (auto simp: image_iff)
    moreover have "e \<in> set es"
      using e s by simp
    ultimately show "e \<in> set (rm_rf (map fst (drop n (ls_t es))) es)"
      by (auto simp: rm_rf_def)
  qed
qed

lemma keep_newest_length:
  assumes "distinct (map fst es)"
  shows "length (rm_rf (map fst (drop n (ls_t es))) es) = min n (length es)"
proof -
  have "distinct es"
    using assms by (simp add: distinct_map)
  then have a: "distinct (rm_rf (map fst (drop n (ls_t es))) es)"
    by (simp add: rm_rf_def)
  have "distinct (map fst (ls_t es))"
    using assms by (simp add: distinct_names_ls_t)
  then have "distinct (ls_t es)"
    by (simp add: distinct_map)
  then have b: "distinct (take n (ls_t es))"
    by simp
  have "length (rm_rf (map fst (drop n (ls_t es))) es)
      = card (set (rm_rf (map fst (drop n (ls_t es))) es))"
    using a by (simp add: distinct_card)
  also have "\<dots> = card (set (take n (ls_t es)))"
    by (simp add: keep_newest_set [OF assms])
  also have "\<dots> = length (take n (ls_t es))"
    using b by (simp add: distinct_card)
  finally show ?thesis by (simp add: min.commute)
qed

lemma keep_newest_order:
  assumes "distinct (map fst es)"
    "k \<in> set (rm_rf (map fst (drop n (ls_t es))) es)"
    "d \<in> set es" "d \<notin> set (rm_rf (map fst (drop n (ls_t es))) es)"
  shows "snd d \<le> snd k"
proof -
  have "k \<in> set (take n (ls_t es))" "d \<notin> set (take n (ls_t es))"
    using assms(2,4) by (simp_all add: keep_newest_set [OF assms(1)])
  moreover have "set es = set (take n (ls_t es)) \<union> set (drop n (ls_t es))"
    unfolding set_append [symmetric] append_take_drop_id by simp
  ultimately show ?thesis
    using assms(3) by (auto intro: ls_t_newer_first)
qed

text \<open>An entry that is newer than every other one survives, whatever \<open>n > 0\<close> is kept.\<close>

lemma keep_newest_head:
  assumes "distinct (map fst es)" "(n, t) \<in> set es"
    "\<forall>e \<in> set es. fst e \<noteq> n \<longrightarrow> snd e < t"
  shows "(n, t) \<in> set (rm_rf (map fst (drop (Suc m) (ls_t es))) es)"
proof -
  obtain x xs where c: "ls_t es = x # xs" and le: "t \<le> snd x"
    using ls_t_head_newest [OF assms(2)] by auto
  have x: "x \<in> set es"
    using c set_ls_t [of es] by auto
  then have "fst x = n"
    using assms(3) le by force
  then have "x = (n, t)"
    using assms(1,2) x by (metis eq_key_imp_eq_value prod.collapse)
  then have "(n, t) \<in> set (take (Suc m) (ls_t es))"
    by (simp add: c)
  then show ?thesis
    by (simp add: keep_newest_set [OF assms(1)])
qed

subsection \<open>Well-formed trees stay well-formed\<close>

lemma wf_remote_update [simp]:
  "wf_remote (r\<lparr>current := c\<rparr>) = wf_remote r"
  "wf_remote (r\<lparr>restarts := n\<rparr>) = wf_remote r"
  by (simp_all add: wf_remote_def)

lemma wf_put:
  assumes "distinct (map fst es)" "\<forall>e \<in> set es. snd e < c"
  shows "distinct (map fst (put n c es))" "\<forall>e \<in> set (put n c es). snd e < Suc c"
  using assms by (auto simp: put_def distinct_map_filter less_Suc_eq)

lemma wf_backup_current: "wf_remote r \<Longrightarrow> wf_remote (backup_current w r)"
  using wf_put [of "toplevel r" "clock r" "''backup_'' @ TIMESTAMP w"]
  by (auto simp: wf_remote_def less_Suc_eq)

lemma wf_snapshot: "wf_remote r \<Longrightarrow> wf_remote (snapshot w r)"
  using wf_put [of "toplevel r" "clock r" "''rollback_backup_'' @ TIMESTAMP w"]
  by (auto simp: wf_remote_def less_Suc_eq)

lemma wf_install_deps: "wf_remote r \<Longrightarrow> wf_remote (install_deps w r)"
  using wf_put [of "releases r" "clock r" "TIMESTAMP w"]
  by (auto simp: wf_remote_def less_Suc_eq)

lemma wf_make_release: "wf_remote r \<Longrightarrow> wf_remote (make_release w r)"
  by (auto simp: wf_remote_def make_release_def tick_def less_Suc_eq image_iff)

lemma wf_prune_releases: "wf_remote r \<Longrightarrow> wf_remote (prune_releases w r)"
  using set_rm_rf_subset [of "old_releases r" "releases r"]
  by (auto simp: wf_remote_def prune_releases_def distinct_names_rm_rf)

lemma wf_prune_backups: "wf_remote r \<Longrightarrow> wf_remote (prune_backups w r)"
  using set_rm_rf_subset [of "old_backups r" "toplevel r"]
  by (auto simp: wf_remote_def prune_backups_def distinct_names_rm_rf)

lemma wf_activated: "wf_remote r \<Longrightarrow> wf_remote (activated cfg w r)"
  by (simp add: activated_def Let_def wf_install_deps wf_make_release wf_backup_current)

subsection \<open>What stays resolvable\<close>

lemma resolves_update [simp]: "resolves base (r\<lparr>restarts := n\<rparr>) = resolves base r"
  by (simp add: resolves_def split: option.splits)

lemma dir_exists_update [simp]:
  "dir_exists base (r\<lparr>restarts := n\<rparr>) p = dir_exists base r p"
  "dir_exists base (r\<lparr>current := c\<rparr>) p = dir_exists base r p"
  by (simp_all add: dir_exists_def split: option.splits)

lemma resolves_mono:
  assumes "resolves base r" "current r' = current r"
    "fst ` set (releases r) \<subseteq> fst ` set (releases r')"
    "fst ` set (toplevel r) \<subseteq> fst ` set (toplevel r')"
  shows "resolves base r'"
proof -
  obtain t where t: "current r = Some t"
    using assms(1) by (cases "current r") (simp_all add: resolves_def)
  show ?thesis
  proof (cases "strip_prefix (base @ ''/releases/'') t")
    case (Some n)
    then have "n \<in> fst ` set (releases r)"
      using assms(1) t by (simp add: resolves_def)
    then have "n \<in> fst ` set (releases r')"
      using assms(3) by (rule rev_subsetD)
    then show ?thesis
      using t Some assms(2) by (simp add: resolves_def)
  next
    case None
    then obtain n where n: "strip_prefix (base @ ''/'') t = Some n"
      using assms(1) t by (cases "strip_prefix (base @ ''/'') t") (simp_all add: resolves_def)
    then have g: "glob_backup n" and "n \<in> fst ` set (toplevel r)"
      using assms(1) t None by (simp_all add: resolves_def)
    then have "n \<in> fst ` set (toplevel r')"
      using assms(4) by (simp add: rev_subsetD)
    then show ?thesis
      using t None n g assms(2) by (simp add: resolves_def)
  qed
qed

lemma dir_exists_mono:
  assumes "dir_exists base r p"
    "fst ` set (releases r) \<subseteq> fst ` set (releases r')"
    "fst ` set (toplevel r) \<subseteq> fst ` set (toplevel r')"
  shows "dir_exists base r' p"
proof -
  obtain rest where rest: "strip_prefix (base @ ''/'') p = Some rest"
    using assms(1) by (cases "strip_prefix (base @ ''/'') p") (simp_all add: dir_exists_def)
  show ?thesis
  proof (cases "strip_prefix ''releases/'' rest")
    case (Some n)
    then have "n \<in> fst ` set (releases r)"
      using assms(1) rest by (simp add: dir_exists_def)
    then have "n \<in> fst ` set (releases r')"
      using assms(2) by (rule rev_subsetD)
    then show ?thesis
      using rest Some by (simp add: dir_exists_def)
  next
    case None
    then have "rest \<in> fst ` set (toplevel r)"
      using assms(1) rest by (simp add: dir_exists_def)
    then have "rest \<in> fst ` set (toplevel r')"
      using assms(3) by (rule rev_subsetD)
    then show ?thesis
      using rest None by (simp add: dir_exists_def)
  qed
qed

lemma names_make_release: "fst ` set (releases (make_release w r)) = insert (TIMESTAMP w) (fst ` set (releases r))"
  by (auto simp: make_release_def tick_def image_iff)

lemma resolves_backup_current: "resolves base r \<Longrightarrow> resolves base (backup_current w r)"
  by (rule resolves_mono) auto

lemma resolves_snapshot: "resolves base r \<Longrightarrow> resolves base (snapshot w r)"
  by (rule resolves_mono) auto

lemma resolves_make_release: "resolves base r \<Longrightarrow> resolves base (make_release w r)"
  by (rule resolves_mono) (auto simp: names_make_release)

lemma resolves_install_deps: "resolves base r \<Longrightarrow> resolves base (install_deps w r)"
  by (rule resolves_mono) auto

lemma resolves_new_release:
  "TIMESTAMP w \<in> fst ` set (releases r) \<Longrightarrow>
   resolves (REMOTE_PATH cfg) (r\<lparr>current := Some (RELEASE_DIR cfg w)\<rparr>)"
  using resolves_release [of "r\<lparr>current := Some (RELEASE_DIR cfg w)\<rparr>" "REMOTE_PATH cfg" "TIMESTAMP w"]
  by (simp add: RELEASE_DIR_def)

lemma resolves_this_backup:
  assumes "dir_exists (REMOTE_PATH cfg) r (BACKUP_DIR cfg w)"
  shows "resolves (REMOTE_PATH cfg) (r\<lparr>current := Some (BACKUP_DIR cfg w)\<rparr>)"
proof -
  have m: "''backup_'' @ TIMESTAMP w \<in> fst ` set (toplevel r)"
    using assms unfolding BACKUP_DIR_def dir_exists_backup .
  have c: "current (r\<lparr>current := Some (BACKUP_DIR cfg w)\<rparr>)
      = Some (REMOTE_PATH cfg @ ''/'' @ (''backup_'' @ TIMESTAMP w))"
    by (simp add: BACKUP_DIR_def)
  have "resolves (REMOTE_PATH cfg) (r\<lparr>current := Some (BACKUP_DIR cfg w)\<rparr>)
      = (''backup_'' @ TIMESTAMP w \<in> fst ` set (toplevel (r\<lparr>current := Some (BACKUP_DIR cfg w)\<rparr>)))"
    by (rule resolves_backup [OF c glob_backup_append])
  then show ?thesis
    using m by simp
qed

lemma resolves_target:
  assumes "dir_exists base r (rollback_path base v)"
  shows "resolves base (r\<lparr>current := Some (rollback_path base v)\<rparr>)"
  using resolves_rollback_path [of "r\<lparr>current := Some (rollback_path base v)\<rparr>" base v] assms
  by simp

section \<open>The cleanup of a deployment\<close>

lemma deploy_loop_passing_aux:
  assumes "attempt_passes w k" "k \<le> MAX_ATTEMPTS"
  shows "ATTEMPT + n = k \<Longrightarrow>
         exit_code (deploy_health_loop cfg w ATTEMPT r after) = exit_code after \<and>
         final (deploy_health_loop cfg w ATTEMPT r after) = final after \<and>
         set (actions after) \<subseteq> set (actions (deploy_health_loop cfg w ATTEMPT r after))"
proof (induction n arbitrary: ATTEMPT)
  case 0
  then have "ATTEMPT \<le> MAX_ATTEMPTS" "attempt_passes w ATTEMPT"
    using assms by simp_all
  then show ?case
    by (auto simp: deploy_loop_pass)
next
  case (Suc n)
  show ?case
  proof (cases "attempt_passes w ATTEMPT")
    case True
    moreover have "ATTEMPT \<le> MAX_ATTEMPTS"
      using Suc.prems assms(2) by simp
    ultimately show ?thesis
      by (auto simp: deploy_loop_pass)
  next
    case False
    have lt: "ATTEMPT < MAX_ATTEMPTS"
      using Suc.prems assms(2) by simp
    have "Suc ATTEMPT + n = k"
      using Suc.prems by simp
    then have "exit_code (deploy_health_loop cfg w (Suc ATTEMPT) r after) = exit_code after \<and>
         final (deploy_health_loop cfg w (Suc ATTEMPT) r after) = final after \<and>
         set (actions after) \<subseteq> set (actions (deploy_health_loop cfg w (Suc ATTEMPT) r after))"
      by (rule Suc.IH)
    then show ?thesis
      unfolding deploy_loop_retry [OF lt False] by auto
  qed
qed

lemma deploy_loop_passing:
  assumes "ATTEMPT \<le> k" "k \<le> MAX_ATTEMPTS" "attempt_passes w k"
  shows "exit_code (deploy_health_loop cfg w ATTEMPT r after) = exit_code after \<and>
         final (deploy_health_loop cfg w ATTEMPT r after) = final after \<and>
         set (actions after) \<subseteq> set (actions (deploy_health_loop cfg w ATTEMPT r after))"
proof -
  have "ATTEMPT + (k - ATTEMPT) = k"
    using assms(1) by simp
  then show ?thesis
    by (rule deploy_loop_passing_aux [OF assms(3,2)])
qed

lemma deploy_passing_run:
  fixes w cfg r
  assumes "deploy_ready w cfg" "passing w"
  defines "C \<equiv> deploy_cleanup cfg w (default_staging (arg1 w)) (activated cfg w r)"
  shows "exit_code (deploy w r) = exit_code C" "final (deploy w r) = final C"
    "set (actions C) \<subseteq> set (actions (deploy w r))"
proof -
  obtain k where m: "k \<in> set [1, 2, 3, 4, 5]" and p: "attempt_passes w k"
    using assms(2) unfolding passing_def by blast
  have "1 \<le> k" "k \<le> MAX_ATTEMPTS"
    using m by (auto simp: MAX_ATTEMPTS_def)
  note k = this p
  note l = deploy_loop_passing [OF k, of cfg "activated cfg w r" C]
  show "exit_code (deploy w r) = exit_code C" "final (deploy w r) = final C"
    unfolding deploy_ready_run(1,2) [OF assms(1)] using l by (simp_all add: C_def)
  show "set (actions C) \<subseteq> set (actions (deploy w r))"
    using deploy_ready_actions [OF assms(1), of r] l by (auto simp: C_def)
qed

lemma deploy_cleanup_outcome:
  "exit_code (deploy_cleanup cfg w env r) = (if SLACK_WEBHOOK_URL w = [] then 0 else status w C_slack)"
  "final (deploy_cleanup cfg w env r) = prune_backups w (prune_releases w r)"
  "Log INFO (''Deployment to '' @ env @ '' completed successfully!'')
     \<in> set (actions (deploy_cleanup cfg w env r))"
  by (auto simp: deploy_cleanup_def deploy_notify_def Let_def remote_status_def errexit_def)

lemma deploy_ready_clean: "deploy_ready w cfg \<Longrightarrow> deploy_ready (clean_cleanup w) cfg"
  by (simp add: deploy_ready_def clean_cleanup_def config_of_def env_file_given_def)

lemma passing_clean: "passing w \<Longrightarrow> passing (clean_cleanup w)"
  by (simp add: passing_def clean_cleanup_def attempt_passes_def)

text \<open>
  C7. In a deployment that reaches the cleanup, a failure of the commands that prune
  old releases and old backups changes nothing in the outcome: the exit code is the
  one of the same run without such a failure, the success is reported, and the run
  exits with code 0 unless the Slack notification that follows the cleanup is
  configured and fails.
\<close>

theorem cleanup_failures_swallowed:
  assumes "deploy_ready w cfg" "passing w"
  shows "exit_code (deploy w r) = exit_code (deploy (clean_cleanup w) r) \<and>
     Log INFO (''Deployment to '' @ default_staging (arg1 w) @ '' completed successfully!'')
       \<in> set (actions (deploy w r)) \<and>
     exit_code (deploy w r) = (if SLACK_WEBHOOK_URL w = [] then 0 else status w C_slack)"
proof -
  note a = deploy_passing_run [OF assms, of r]
  note b = deploy_passing_run [OF deploy_ready_clean [OF assms(1)] passing_clean [OF assms(2)], of r]
  have "exit_code (deploy w r) = (if SLACK_WEBHOOK_URL w = [] then 0 else status w C_slack)"
    unfolding a(1) by (rule deploy_cleanup_outcome(1))
  moreover have "exit_code (deploy (clean_cleanup w) r)
      = (if SLACK_WEBHOOK_URL w = [] then 0 else status w C_slack)"
    unfolding b(1) deploy_cleanup_outcome(1) by (simp add: clean_cleanup_def)
  moreover have "Log INFO (''Deployment to '' @ default_staging (arg1 w) @ '' completed successfully!'')
       \<in> set (actions (deploy w r))"
    using a(3) deploy_cleanup_outcome(3) by (rule subsetD)
  ultimately show ?thesis by simp
qed

theorem cleanup_failures_swallowed_witness:
  "deploy_ready w_cleanup_fails staging \<and> passing w_cleanup_fails \<and>
   status w_cleanup_fails C_rm_releases = 1 \<and> status w_cleanup_fails C_cd_root = 1 \<and>
   exit_code (deploy w_cleanup_fails r_six) = 0 \<and>
   exit_code (deploy (clean_cleanup w_cleanup_fails) r_six) = 0"
proof -
  have a: "deploy_ready w_cleanup_fails staging" "passing w_cleanup_fails"
    by code_simp+
  have b: "status w_cleanup_fails C_rm_releases = 1" "status w_cleanup_fails C_cd_root = 1"
    "SLACK_WEBHOOK_URL w_cleanup_fails = []"
    by code_simp+
  note t = cleanup_failures_swallowed [OF a, of r_six]
  have c: "exit_code (deploy w_cleanup_fails r_six) = 0"
    using t [THEN conjunct2, THEN conjunct2] by (simp add: b)
  have d: "exit_code (deploy (clean_cleanup w_cleanup_fails) r_six) = 0"
    using t [THEN conjunct1] by (simp only: c)
  show ?thesis
    by (intro conjI a b(1,2) c d)
qed


lemma backups_rm_rf:
  "filter (\<lambda>e. glob_backup (fst e)) (rm_rf ns es) = rm_rf ns (filter (\<lambda>e. glob_backup (fst e)) es)"
  by (induction es) (simp_all add: rm_rf_def)

lemma old_backups_listing: "old_backups r = map fst (drop 3 (ls_t (backups r)))"
  by (simp add: old_backups_def ls_dt_backups_def backups_def)

lemma others_rm_rf_old_backups:
  "filter (\<lambda>e. \<not> glob_backup (fst e)) (rm_rf (old_backups r) (toplevel r))
     = filter (\<lambda>e. \<not> glob_backup (fst e)) (toplevel r)"
proof -
  have "\<forall>n \<in> set (old_backups r). glob_backup n"
  proof
    fix n
    assume "n \<in> set (old_backups r)"
    then obtain e where "e \<in> set (drop 3 (ls_t (backups r)))" "n = fst e"
      unfolding old_backups_listing by auto
    moreover have "set (drop 3 (ls_t (backups r))) \<subseteq> set (ls_t (backups r))"
      by (rule set_drop_subset)
    ultimately have "e \<in> set (backups r)" "n = fst e"
      by auto
    then show "glob_backup n"
      by (simp add: backups_def)
  qed
  then have "\<And>e. \<not> glob_backup (fst e) \<Longrightarrow> fst e \<notin> set (old_backups r)"
    by blast
  then show ?thesis
    unfolding rm_rf_def filter_filter by (intro filter_cong) auto
qed

lemma distinct_backups: "wf_remote r \<Longrightarrow> distinct (map fst (backups r))"
  by (simp add: wf_remote_def backups_def distinct_map_filter)

text \<open>What the two pruning commands leave, when they succeed on a well-formed tree.\<close>

lemma pruned_tree:
  assumes "wf_remote r" "cleanup_ok w"
  defines "r' \<equiv> prune_backups w (prune_releases w r)"
  shows "set (releases r') = set (take 5 (ls_t (releases r)))"
    and "length (releases r') = min 5 (length (releases r))"
    and "\<forall>k \<in> set (releases r'). \<forall>d \<in> set (releases r). d \<notin> set (releases r') \<longrightarrow> snd d \<le> snd k"
    and "set (backups r') = set (take 3 (ls_t (backups r)))"
    and "length (backups r') = min 3 (length (backups r))"
    and "\<forall>k \<in> set (backups r'). \<forall>d \<in> set (backups r). d \<notin> set (backups r') \<longrightarrow> snd d \<le> snd k"
    and "filter (\<lambda>e. \<not> glob_backup (fst e)) (toplevel r')
           = filter (\<lambda>e. \<not> glob_backup (fst e)) (toplevel r)"
proof -
  have dr: "distinct (map fst (releases r))"
    using assms(1) by (simp add: wf_remote_def)
  have db: "distinct (map fst (backups r))"
    using assms(1) by (rule distinct_backups)
  have rel: "releases r' = rm_rf (map fst (drop 5 (ls_t (releases r)))) (releases r)"
    using assms(2) by (simp add: r'_def cleanup_ok_def prune_releases_def old_releases_def)
  have top: "toplevel r' = rm_rf (old_backups r) (toplevel r)"
    using assms(2)
    by (simp add: r'_def cleanup_ok_def prune_backups_def old_backups_def)
  have bak: "backups r' = rm_rf (map fst (drop 3 (ls_t (backups r)))) (backups r)"
    unfolding backups_def top backups_rm_rf
    by (simp add: old_backups_listing backups_def)
  show "set (releases r') = set (take 5 (ls_t (releases r)))"
    unfolding rel by (rule keep_newest_set [OF dr])
  show "length (releases r') = min 5 (length (releases r))"
    unfolding rel by (rule keep_newest_length [OF dr])
  show "\<forall>k \<in> set (releases r'). \<forall>d \<in> set (releases r). d \<notin> set (releases r') \<longrightarrow> snd d \<le> snd k"
    unfolding rel using keep_newest_order [OF dr] by blast
  show "set (backups r') = set (take 3 (ls_t (backups r)))"
    unfolding bak by (rule keep_newest_set [OF db])
  show "length (backups r') = min 3 (length (backups r))"
    unfolding bak by (rule keep_newest_length [OF db])
  show "\<forall>k \<in> set (backups r'). \<forall>d \<in> set (backups r). d \<notin> set (backups r') \<longrightarrow> snd d \<le> snd k"
    unfolding bak using keep_newest_order [OF db] by blast
  show "filter (\<lambda>e. \<not> glob_backup (fst e)) (toplevel r')
           = filter (\<lambda>e. \<not> glob_backup (fst e)) (toplevel r)"
    unfolding top by (rule others_rm_rf_old_backups)
qed



section \<open>The runs that reach the health check and the cleanup\<close>

text \<open>
  The hypotheses of the properties name the runs they are about: a deployment makes a
  health request exactly when \<open>deploy_ready\<close> holds, a rollback exactly when
  \<open>rollback_ready\<close> holds, and a deployment starts its cleanup exactly when it is
  ready and its health check passes.
\<close>

lemma deploy_reaches_poll_iff:
  "(\<exists>x \<in> set (actions (deploy w r)). is_request x) = (\<exists>cfg. deploy_ready w cfg)"
proof
  assume "\<exists>cfg. deploy_ready w cfg"
  then obtain cfg where c: "deploy_ready w cfg" ..
  have "\<exists>x \<in> set (actions (deploy_health_loop cfg w 1 (activated cfg w r)
           (deploy_cleanup cfg w (default_staging (arg1 w)) (activated cfg w r)))). is_request x"
    by (rule deploy_loop_has_request) (simp add: MAX_ATTEMPTS_def)
  then show "\<exists>x \<in> set (actions (deploy w r)). is_request x"
    using deploy_ready_actions [OF c, of r] by blast
next
  assume a: "\<exists>x \<in> set (actions (deploy w r)). is_request x"
  show "\<exists>cfg. deploy_ready w cfg"
  proof (rule ccontr)
    assume n: "\<not> (\<exists>cfg. deploy_ready w cfg)"
    have u: "\<forall>x \<in> set (actions (deploy_upload cfg w env r')). \<not> is_request x"
      if "\<not> (status w C_mkdir = 0 \<and> status w C_rsync = 0 \<and> status w C_scp_package = 0 \<and>
              status w C_npm_ci = 0 \<and> status w C_pm2_save = 0 \<and>
              (env = ''staging'' \<and> STAGING_ENV_FILE w \<noteq> [] \<or>
               env = ''production'' \<and> PRODUCTION_ENV_FILE w \<noteq> [] \<longrightarrow> status w C_scp_env = 0))"
      for cfg env r'
      using that
      by (auto simp: deploy_upload_def deploy_activate_def Let_def remote_status_def errexit_def)
    have "\<forall>x \<in> set (actions (deploy w r)). \<not> is_request x"
      using n u
      by (auto simp: deploy_def deploy_ready_def config_of_def env_file_given_def Let_def
          remote_status_def split: option.splits)
    then show False
      using a by blast
  qed
qed


lemma rollback_reaches_poll_iff:
  "(\<exists>x \<in> set (actions (rollback w r)). is_request x) = (\<exists>cfg. rollback_ready w cfg r)"
proof
  assume "\<exists>cfg. rollback_ready w cfg r"
  then obtain cfg where c: "rollback_ready w cfg r" ..
  have "\<exists>x \<in> set (actions (rollback_health_loop cfg w 1 (switched cfg w r)
           (rollback_success cfg w (default_staging (arg1 w)) (switched cfg w r)))). is_request x"
    by (rule rollback_loop_has_request) (simp add: MAX_ATTEMPTS_def)
  then show "\<exists>x \<in> set (actions (rollback w r)). is_request x"
    using rollback_ready_actions [OF c] by blast
next
  assume a: "\<exists>x \<in> set (actions (rollback w r)). is_request x"
  show "\<exists>cfg. rollback_ready w cfg r"
  proof (rule ccontr)
    assume n: "\<not> (\<exists>cfg. rollback_ready w cfg r)"
    have u: "\<forall>x \<in> set (actions (rollback_snapshot cfg w env p r')). \<not> is_request x"
      if "status w C_pm2_save \<noteq> 0" for cfg env p r'
      using that
      by (auto simp: rollback_snapshot_def rollback_switch_def Let_def remote_status_def errexit_def
          split: option.splits)
    have "\<forall>x \<in> set (actions (rollback w r)). \<not> is_request x"
      using n u
      by (auto simp: rollback_def rollback_verify_def rollback_confirm_def rollback_discover_def
          rollback_ready_def rollback_valid_def config_of_def Let_def
          remote_status_def errexit_def split: option.splits)
    then show False
      using a by blast
  qed
qed

lemma passing_or_failing: "passing w = (\<not> failing w [1, 2, 3, 4, 5])"
  by (simp add: passing_def failing_def)


lemma deploy_reaches_cleanup_iff:
  "(Log INFO ''Cleaning up old releases...'' \<in> set (actions (deploy w r)))
     = ((\<exists>cfg. deploy_ready w cfg) \<and> passing w)"
proof
  assume "(\<exists>cfg. deploy_ready w cfg) \<and> passing w"
  then obtain cfg where c: "deploy_ready w cfg" and p: "passing w" by blast
  have "Log INFO ''Cleaning up old releases...''
      \<in> set (actions (deploy_cleanup cfg w (default_staging (arg1 w)) (activated cfg w r)))"
    by (simp add: deploy_cleanup_def)
  then show "Log INFO ''Cleaning up old releases...'' \<in> set (actions (deploy w r))"
    using deploy_passing_run(3) [OF c p, of r] by blast
next
  assume a: "Log INFO ''Cleaning up old releases...'' \<in> set (actions (deploy w r))"
  show "(\<exists>cfg. deploy_ready w cfg) \<and> passing w"
  proof (rule ccontr)
    assume n: "\<not> ((\<exists>cfg. deploy_ready w cfg) \<and> passing w)"
    have l: "Log INFO ''Cleaning up old releases...''
        \<notin> set (actions (deploy_health_loop cfg w 1 r' after))"
      if "\<not> passing w" for cfg r' after
    proof -
      have "failing w [1, 2, 3, 4, 5]"
        using that by (simp add: passing_or_failing)
      then show ?thesis
        unfolding deploy_loop_never [OF \<open>failing w [1, 2, 3, 4, 5]\<close>]
        by (simp add: deploy_revert_def Let_def remote_status_def)
    qed
    have act: "Log INFO ''Cleaning up old releases...''
        \<notin> set (actions (deploy_activate cfg w env r'))"
      if "\<not> passing w" for cfg env r'
      using l [OF that]
      by (auto simp: deploy_activate_def Let_def remote_status_def errexit_def)
    have u: "Log INFO ''Cleaning up old releases...''
        \<notin> set (actions (deploy_upload cfg w env r'))"
      if "\<not> passing w \<or>
          \<not> (status w C_mkdir = 0 \<and> status w C_rsync = 0 \<and> status w C_scp_package = 0 \<and>
              status w C_npm_ci = 0 \<and> status w C_pm2_save = 0 \<and>
              (env = ''staging'' \<and> STAGING_ENV_FILE w \<noteq> [] \<or>
               env = ''production'' \<and> PRODUCTION_ENV_FILE w \<noteq> [] \<longrightarrow> status w C_scp_env = 0))"
      for cfg env r'
    proof (cases "passing w")
      case False
      then show ?thesis
        using act [OF False]
        by (auto simp: deploy_upload_def Let_def remote_status_def errexit_def)
    next
      case True
      then show ?thesis
        using that
        by (auto simp: deploy_upload_def deploy_activate_def Let_def remote_status_def errexit_def)
    qed
    have "Log INFO ''Cleaning up old releases...'' \<notin> set (actions (deploy w r))"
      using n u
      by (auto simp: deploy_def deploy_ready_def config_of_def env_file_given_def Let_def
          remote_status_def split: option.splits)
    then show False
      using a by blast
  qed
qed

section \<open>The states of a run\<close>

lemma deploy_cleanup_states:
  "states (deploy_cleanup cfg w env r)
     \<subseteq> {r, prune_releases w r, prune_backups w (prune_releases w r)}"
  by (auto simp: deploy_cleanup_def deploy_notify_def Let_def remote_status_def errexit_def)

lemma deploy_revert_states:
  "states (deploy_revert cfg w r) \<subseteq>
     (if dir_exists (REMOTE_PATH cfg) r (BACKUP_DIR cfg w)
      then {r, r\<lparr>current := Some (BACKUP_DIR cfg w)\<rparr>,
            r\<lparr>current := Some (BACKUP_DIR cfg w), restarts := Suc (restarts r)\<rparr>}
      else {r})"
  by (auto simp: deploy_revert_def Let_def remote_status_def)

lemma deploy_loop_states:
  "states (deploy_health_loop cfg w ATTEMPT r after)
     \<subseteq> insert r (states after \<union> states (deploy_revert cfg w r))"
proof (induction cfg w ATTEMPT r after rule: deploy_health_loop.induct)
  case (1 cfg w ATTEMPT r after)
  show ?case
  proof (cases "ATTEMPT \<le> MAX_ATTEMPTS")
    case False
    then show ?thesis
      by (subst deploy_health_loop.simps) auto
  next
    case le: True
    show ?thesis
    proof (cases "attempt_passes w ATTEMPT")
      case True
      then show ?thesis
        using le by (subst deploy_health_loop.simps) auto
    next
      case np: False
      show ?thesis
      proof (cases "ATTEMPT = MAX_ATTEMPTS")
        case True
        then show ?thesis
          using np by (subst deploy_health_loop.simps) auto
      next
        case False
        then have "states (deploy_health_loop cfg w (ATTEMPT + 1) r after)
            \<subseteq> insert r (states after \<union> states (deploy_revert cfg w r))"
          using le np by (rule "1.IH" [rotated 2])
        then show ?thesis
          using le np False by (subst deploy_health_loop.simps) auto
      qed
    qed
  qed
qed

lemma rollback_loop_states:
  "states (rollback_health_loop cfg w ATTEMPT r after) \<subseteq> insert r (states after)"
proof (induction cfg w ATTEMPT r after rule: rollback_health_loop.induct)
  case (1 cfg w ATTEMPT r after)
  show ?case
  proof (cases "ATTEMPT \<le> MAX_ATTEMPTS")
    case False
    then show ?thesis
      by (subst rollback_health_loop.simps) auto
  next
    case le: True
    show ?thesis
    proof (cases "attempt_passes w ATTEMPT")
      case True
      then show ?thesis
        using le by (subst rollback_health_loop.simps) auto
    next
      case np: False
      show ?thesis
      proof (cases "ATTEMPT = MAX_ATTEMPTS")
        case True
        then show ?thesis
          using np by (subst rollback_health_loop.simps) (auto simp: rollback_alert_def)
      next
        case False
        then have "states (rollback_health_loop cfg w (ATTEMPT + 1) r after)
            \<subseteq> insert r (states after)"
          using le np by (rule "1.IH" [rotated 2])
        then show ?thesis
          using le np False by (subst rollback_health_loop.simps) auto
      qed
    qed
  qed
qed

lemma deploy_activate_states:
  fixes cfg w env r
  defines "r3 \<equiv> r\<lparr>current := Some (RELEASE_DIR cfg w)\<rparr>"
  defines "r4 \<equiv> r\<lparr>current := Some (RELEASE_DIR cfg w), restarts := Suc (restarts r)\<rparr>"
  shows "states (deploy_activate cfg w env r)
     \<subseteq> {r, r3, r4} \<union> states (deploy_cleanup cfg w env r4) \<union> states (deploy_revert cfg w r4)"
  using deploy_loop_states [of cfg w 1 r4 "deploy_cleanup cfg w env r4"]
  unfolding r3_def r4_def
  by (auto simp: deploy_activate_def Let_def remote_status_def errexit_def)

lemma deploy_upload_states:
  "states (deploy_upload cfg w env r)
     \<subseteq> {r, make_release w r, install_deps w (make_release w r)}
        \<union> states (deploy_activate cfg w env (install_deps w (make_release w r)))"
  by (auto simp: deploy_upload_def Let_def remote_status_def errexit_def)

lemma deploy_states:
  fixes w cfg r
  defines "r0 \<equiv> (if current_is_dir (REMOTE_PATH cfg) r then backup_current w r else r)"
  assumes "config_of w = Some cfg"
  shows "states (deploy w r)
     \<subseteq> {r, r0} \<union> states (deploy_upload cfg w (default_staging (arg1 w)) r0)"
  using assms(2) unfolding r0_def
  by (auto simp: deploy_def config_of_def Let_def remote_status_def)

lemma deploy_states_invalid:
  assumes "config_of w = None"
  shows "states (deploy w r) = {r}"
  using assms
  by (auto simp: deploy_def config_of_def Let_def)


section \<open>The pointer over whole runs\<close>

lemma newest_after_install:
  assumes "wf_remote r"
  shows "newest_release w (install_deps w r)"
proof -
  have "(TIMESTAMP w, clock r) \<in> set (releases (install_deps w r))"
    by (simp add: put_def)
  moreover have "\<forall>e \<in> set (releases (install_deps w r)). fst e \<noteq> TIMESTAMP w \<longrightarrow> snd e < clock r"
    using assms by (auto simp: put_def wf_remote_def)
  ultimately show ?thesis
    unfolding newest_release_def by blast
qed

lemma newest_survives:
  assumes "wf_remote r" "newest_release w r"
  shows "TIMESTAMP w \<in> fst ` set (releases (prune_releases w r))"
proof -
  obtain t where t: "(TIMESTAMP w, t) \<in> set (releases r)"
    "\<forall>e \<in> set (releases r). fst e \<noteq> TIMESTAMP w \<longrightarrow> snd e < t"
    using assms(2) unfolding newest_release_def by blast
  have d: "distinct (map fst (releases r))"
    using assms(1) by (simp add: wf_remote_def)
  have "(TIMESTAMP w, t) \<in> set (rm_rf (map fst (drop (Suc 4) (ls_t (releases r)))) (releases r))"
    using d t by (rule keep_newest_head)
  then have "(TIMESTAMP w, t) \<in> set (rm_rf (old_releases r) (releases r))"
    by (simp add: old_releases_def eval_nat_numeral)
  then have "(TIMESTAMP w, t) \<in> set (releases (prune_releases w r))"
    using t(1) by (simp add: prune_releases_def)
  then show ?thesis
    by (rule image_eqI [rotated]) simp
qed

text \<open>Every state of a deployment is one of ten, the last two after a failed health poll.\<close>

lemma deploy_states_cases:
  fixes w cfg r P
  defines "r0 \<equiv> (if current_is_dir (REMOTE_PATH cfg) r then backup_current w r else r)"
  defines "r2 \<equiv> install_deps w (make_release w r0)"
  defines "r4 \<equiv> r2\<lparr>current := Some (RELEASE_DIR cfg w), restarts := Suc (restarts r2)\<rparr>"
  assumes "config_of w = Some cfg"
    and "P r" "P r0" "P (make_release w r0)" "P r2"
    and "P (r2\<lparr>current := Some (RELEASE_DIR cfg w)\<rparr>)" "P r4"
    and "P (prune_releases w r4)" "P (prune_backups w (prune_releases w r4))"
    and "dir_exists (REMOTE_PATH cfg) r4 (BACKUP_DIR cfg w) \<Longrightarrow>
         P (r4\<lparr>current := Some (BACKUP_DIR cfg w)\<rparr>) \<and>
         P (r4\<lparr>current := Some (BACKUP_DIR cfg w), restarts := Suc (restarts r4)\<rparr>)"
  shows "\<forall>s \<in> states (deploy w r). P s"
proof -
  define env where "env = default_staging (arg1 w)"
  have "states (deploy_cleanup cfg w env r4)
      \<subseteq> {r4, prune_releases w r4, prune_backups w (prune_releases w r4)}"
    by (rule deploy_cleanup_states)
  then have clean: "\<forall>s \<in> states (deploy_cleanup cfg w env r4). P s"
    using assms(10-12) by blast
  have rev: "\<forall>s \<in> states (deploy_revert cfg w r4). P s"
  proof (cases "dir_exists (REMOTE_PATH cfg) r4 (BACKUP_DIR cfg w)")
    case True
    have "states (deploy_revert cfg w r4) \<subseteq>
        {r4, r4\<lparr>current := Some (BACKUP_DIR cfg w)\<rparr>,
         r4\<lparr>current := Some (BACKUP_DIR cfg w), restarts := Suc (restarts r4)\<rparr>}"
      using deploy_revert_states [of cfg w r4] True by (simp only: if_True)
    then show ?thesis
      using assms(10) assms(13) [OF True] by blast
  next
    case False
    have "states (deploy_revert cfg w r4) \<subseteq> {r4}"
      using deploy_revert_states [of cfg w r4] False by (simp only: if_False)
    then show ?thesis
      using assms(10) by blast
  qed
  have "states (deploy_activate cfg w env r2)
      \<subseteq> {r2, r2\<lparr>current := Some (RELEASE_DIR cfg w)\<rparr>, r4}
         \<union> states (deploy_cleanup cfg w env r4) \<union> states (deploy_revert cfg w r4)"
    unfolding r4_def by (rule deploy_activate_states)
  then have act: "\<forall>s \<in> states (deploy_activate cfg w env r2). P s"
    using assms(8-10) clean rev by blast
  have "states (deploy_upload cfg w env r0)
      \<subseteq> {r0, make_release w r0, r2} \<union> states (deploy_activate cfg w env r2)"
    unfolding r2_def by (rule deploy_upload_states)
  then have up: "\<forall>s \<in> states (deploy_upload cfg w env r0). P s"
    using assms(6-8) act by blast
  have "states (deploy w r) \<subseteq> {r, r0} \<union> states (deploy_upload cfg w env r0)"
    unfolding r0_def env_def by (rule deploy_states [OF assms(4)])
  then show ?thesis
    using assms(5,6) up by blast
qed

lemma deploy_keeps_pointer:
  assumes "config_of w = Some cfg" "wf_remote r" "resolves (REMOTE_PATH cfg) r"
  shows "\<forall>s \<in> states (deploy w r). wf_remote s \<and> resolves (REMOTE_PATH cfg) s"
proof -
  define base where "base = REMOTE_PATH cfg"
  define I where "I = (\<lambda>s. wf_remote s \<and> resolves base s)"
  define r0 where "r0 = (if current_is_dir base r then backup_current w r else r)"
  define r1 where "r1 = make_release w r0"
  define r2 where "r2 = install_deps w r1"
  define r3 where "r3 = r2\<lparr>current := Some (RELEASE_DIR cfg w)\<rparr>"
  define r4 where "r4 = r2\<lparr>current := Some (RELEASE_DIR cfg w), restarts := Suc (restarts r2)\<rparr>"
  define r5 where "r5 = prune_releases w r4"
  define r6 where "r6 = prune_backups w r5"
  have Ir: "I r"
    using assms(2,3) by (simp add: I_def base_def)
  have Ib: "I (backup_current w r)"
    using Ir by (simp add: I_def wf_backup_current resolves_backup_current)
  have I0: "I r0"
    using Ir Ib by (simp add: r0_def)
  have I1: "I r1"
    using I0 by (simp add: I_def r1_def wf_make_release resolves_make_release)
  have I2: "I r2"
    using I1 by (simp add: I_def r2_def wf_install_deps resolves_install_deps)
  have n2: "TIMESTAMP w \<in> fst ` set (releases r2)"
    by (simp add: r2_def)
  have I3: "I r3"
    using I2 resolves_new_release [OF n2, of cfg] by (simp add: I_def r3_def base_def)
  have r34: "r4 = r3\<lparr>restarts := Suc (restarts r2)\<rparr>"
    by (simp add: r3_def r4_def)
  have I4: "I r4"
    using I3 unfolding r34 by (simp add: I_def)
  have w1: "wf_remote r1"
    using I1 by (simp add: I_def)
  have "newest_release w r2"
    unfolding r2_def using w1 by (rule newest_after_install)
  then have new4: "newest_release w r4"
    by (simp add: newest_release_def r4_def)
  have w4: "wf_remote r4"
    using I4 by (simp add: I_def)
  have n5: "TIMESTAMP w \<in> fst ` set (releases r5)"
    unfolding r5_def using w4 new4 by (rule newest_survives)
  have c5: "r5 = r5\<lparr>current := Some (RELEASE_DIR cfg w)\<rparr>"
    by (simp add: r5_def r4_def)
  have I5: "I r5"
    using resolves_new_release [OF n5, of cfg] wf_prune_releases [OF w4, of w] c5
    by (simp add: I_def base_def r5_def)
  have n6: "TIMESTAMP w \<in> fst ` set (releases r6)"
    using n5 by (simp add: r6_def)
  have c6: "r6 = r6\<lparr>current := Some (RELEASE_DIR cfg w)\<rparr>"
    by (simp add: r6_def r5_def r4_def)
  have w5: "wf_remote r5"
    using I5 by (simp add: I_def)
  have I6: "I r6"
    using resolves_new_release [OF n6, of cfg] wf_prune_backups [OF w5, of w] c6
    by (simp add: I_def base_def r6_def)
  have I78: "I (r4\<lparr>current := Some (BACKUP_DIR cfg w)\<rparr>) \<and>
      I (r4\<lparr>current := Some (BACKUP_DIR cfg w), restarts := Suc (restarts r4)\<rparr>)"
    if d: "dir_exists (REMOTE_PATH cfg) r4 (BACKUP_DIR cfg w)"
  proof -
    have a: "I (r4\<lparr>current := Some (BACKUP_DIR cfg w)\<rparr>)"
      using resolves_this_backup [OF d] w4 by (simp add: I_def base_def)
    have "r4\<lparr>current := Some (BACKUP_DIR cfg w), restarts := Suc (restarts r4)\<rparr>
        = (r4\<lparr>current := Some (BACKUP_DIR cfg w)\<rparr>)\<lparr>restarts := Suc (restarts r4)\<rparr>"
      by simp
    with a have "I (r4\<lparr>current := Some (BACKUP_DIR cfg w), restarts := Suc (restarts r4)\<rparr>)"
      unfolding I_def by (simp only: wf_remote_update resolves_update)
    with a show ?thesis ..
  qed
  have "\<forall>s \<in> states (deploy w r). I s"
    using assms(1) Ir I0 I1 I2 I3 I4 I5 I6 I78
    unfolding r0_def r1_def r2_def r3_def r4_def r5_def r6_def base_def
    by (rule deploy_states_cases)
  then show ?thesis
    by (simp add: I_def base_def)
qed


lemma rollback_switch_states:
  "states (rollback_switch cfg w env p r)
     \<subseteq> {r, r\<lparr>current := Some p\<rparr>, r\<lparr>current := Some p, restarts := Suc (restarts r)\<rparr>}"
  using rollback_loop_states [of cfg w 1 "r\<lparr>current := Some p, restarts := Suc (restarts r)\<rparr>"
      "rollback_success cfg w env (r\<lparr>current := Some p, restarts := Suc (restarts r)\<rparr>)"]
  by (auto simp: rollback_switch_def rollback_success_def Let_def remote_status_def errexit_def)

lemma rollback_snapshot_states:
  fixes cfg w env p r
  defines "r1 \<equiv> (case current r of None \<Rightarrow> r
     | Some t \<Rightarrow> if dir_exists (REMOTE_PATH cfg) r t then snapshot w r else r)"
  shows "states (rollback_snapshot cfg w env p r)
     \<subseteq> {r, r1, r1\<lparr>current := Some p\<rparr>, r1\<lparr>current := Some p, restarts := Suc (restarts r1)\<rparr>}"
  using rollback_switch_states [of cfg w env p r1] unfolding r1_def
  by (auto simp: rollback_snapshot_def Let_def remote_status_def errexit_def split: option.splits)

lemma rollback_states:
  fixes cfg w r
  defines "p \<equiv> rollback_path (REMOTE_PATH cfg) (arg2 w)"
  assumes "config_of w = Some cfg"
  shows "states (rollback w r) \<subseteq> insert r
     (if dir_exists (REMOTE_PATH cfg) r p
      then states (rollback_snapshot cfg w (default_staging (arg1 w)) p r) else {})"
  using assms(2) unfolding p_def
  by (auto simp: rollback_def rollback_verify_def rollback_confirm_def rollback_discover_def
      config_of_def Let_def remote_status_def errexit_def split: option.splits)

lemma rollback_keeps_pointer:
  assumes "config_of w = Some cfg" "wf_remote r" "resolves (REMOTE_PATH cfg) r"
  shows "\<forall>s \<in> states (rollback w r). wf_remote s \<and> resolves (REMOTE_PATH cfg) s"
proof (cases "dir_exists (REMOTE_PATH cfg) r (rollback_path (REMOTE_PATH cfg) (arg2 w))")
  case False
  then have "states (rollback w r) \<subseteq> {r}"
    using rollback_states [OF assms(1), of r] by (simp only: if_False)
  then show ?thesis
    using assms(2,3) by blast
next
  case True
  define base where "base = REMOTE_PATH cfg"
  define p where "p = rollback_path base (arg2 w)"
  define I where "I = (\<lambda>s. wf_remote s \<and> resolves base s)"
  define r1 where "r1 = (case current r of None \<Rightarrow> r
     | Some t \<Rightarrow> if dir_exists base r t then snapshot w r else r)"
  have Ir: "I r"
    using assms(2,3) by (simp add: I_def base_def)
  have "I (snapshot w r)"
    using Ir by (simp add: I_def wf_snapshot resolves_snapshot)
  then have I1: "I r1"
    using Ir by (simp add: r1_def split: option.splits)
  have "dir_exists base (snapshot w r) p"
    using True unfolding base_def [symmetric] p_def [symmetric]
    by (rule dir_exists_mono) auto
  then have "dir_exists base r1 p"
    using True by (simp add: r1_def base_def p_def split: option.splits)
  then have "resolves base (r1\<lparr>current := Some p\<rparr>)"
    unfolding p_def by (rule resolves_target)
  then have I2: "I (r1\<lparr>current := Some p\<rparr>)"
    using I1 by (simp add: I_def)
  have "r1\<lparr>current := Some p, restarts := Suc (restarts r1)\<rparr>
      = (r1\<lparr>current := Some p\<rparr>)\<lparr>restarts := Suc (restarts r1)\<rparr>"
    by simp
  with I2 have I3: "I (r1\<lparr>current := Some p, restarts := Suc (restarts r1)\<rparr>)"
    unfolding I_def by (simp only: wf_remote_update resolves_update)
  have "states (rollback w r)
      \<subseteq> insert r (states (rollback_snapshot cfg w (default_staging (arg1 w)) p r))"
    using rollback_states [OF assms(1), of r] True
    unfolding p_def base_def by (simp only: if_True)
  moreover have "states (rollback_snapshot cfg w (default_staging (arg1 w)) p r)
     \<subseteq> {r, r1, r1\<lparr>current := Some p\<rparr>, r1\<lparr>current := Some p, restarts := Suc (restarts r1)\<rparr>}"
    unfolding r1_def base_def by (rule rollback_snapshot_states)
  ultimately have "\<forall>s \<in> states (rollback w r). I s"
    using Ir I1 I2 I3 by blast
  then show ?thesis
    by (simp add: I_def base_def)
qed

lemma deploy_no_build:
  assumes "config_of w = Some cfg" "REMOTE_HOST cfg \<noteq> []" "\<not> build_dir w"
  shows "exit_code (deploy w r) = 1" "final (deploy w r) = r"
    "actions (deploy w r) = [Log ERROR ''Build directory not found: dist'']"
  using assms by (simp_all add: deploy_def config_of_def Let_def BUILD_DIR_def)

lemma deploy_sets_pointer:
  assumes "config_of w = Some cfg" "wf_remote r"
  shows "\<forall>s \<in> states (deploy w r).
    wf_remote s \<and> (resolves (REMOTE_PATH cfg) s \<or> current s = current r)"
proof -
  define base where "base = REMOTE_PATH cfg"
  define I where "I = (\<lambda>s::remote. wf_remote s \<and> (resolves base s \<or> current s = current r))"
  define r0 where "r0 = (if current_is_dir base r then backup_current w r else r)"
  define r1 where "r1 = make_release w r0"
  define r2 where "r2 = install_deps w r1"
  define r3 where "r3 = r2\<lparr>current := Some (RELEASE_DIR cfg w)\<rparr>"
  define r4 where "r4 = r2\<lparr>current := Some (RELEASE_DIR cfg w), restarts := Suc (restarts r2)\<rparr>"
  define r5 where "r5 = prune_releases w r4"
  define r6 where "r6 = prune_backups w r5"
  have Ir: "I r"
    using assms(2) by (simp add: I_def)
  have Ib: "I (backup_current w r)"
    using Ir by (simp add: I_def wf_backup_current)
  have I0: "I r0"
    using Ir Ib by (simp add: r0_def)
  have c0: "current r0 = current r"
    by (simp add: r0_def)
  have w0: "wf_remote r0"
    using I0 by (simp add: I_def)
  have I1: "I r1"
    using w0 c0 by (simp add: I_def r1_def wf_make_release)
  have w1: "wf_remote r1"
    using I1 by (simp add: I_def)
  have I2: "I r2"
    using w1 c0 by (simp add: I_def r2_def r1_def wf_install_deps)
  have w2: "wf_remote r2"
    using I2 by (simp add: I_def)
  have n2: "TIMESTAMP w \<in> fst ` set (releases r2)"
    by (simp add: r2_def)
  have I3: "I r3"
    using w2 resolves_new_release [OF n2, of cfg] by (simp add: I_def r3_def base_def)
  have r34: "r4 = r3\<lparr>restarts := Suc (restarts r2)\<rparr>"
    by (simp add: r3_def r4_def)
  have w4: "wf_remote r4"
    using w2 by (simp add: r4_def)
  have "resolves base r3"
    using resolves_new_release [OF n2, of cfg] by (simp add: r3_def base_def)
  then have "resolves base r4"
    unfolding r34 by (simp only: resolves_update)
  then have I4: "I r4"
    using w4 by (simp add: I_def)
  have "newest_release w r2"
    unfolding r2_def using w1 by (rule newest_after_install)
  then have new4: "newest_release w r4"
    by (simp add: newest_release_def r4_def)
  have n5: "TIMESTAMP w \<in> fst ` set (releases r5)"
    unfolding r5_def using w4 new4 by (rule newest_survives)
  have c5: "r5 = r5\<lparr>current := Some (RELEASE_DIR cfg w)\<rparr>"
    by (simp add: r5_def r4_def)
  have w5: "wf_remote r5"
    unfolding r5_def using w4 by (rule wf_prune_releases)
  have "resolves base r5"
    using resolves_new_release [OF n5, of cfg] c5 by (simp add: base_def)
  then have I5: "I r5"
    using w5 by (simp add: I_def)
  have n6: "TIMESTAMP w \<in> fst ` set (releases r6)"
    using n5 by (simp add: r6_def)
  have c6: "r6 = r6\<lparr>current := Some (RELEASE_DIR cfg w)\<rparr>"
    by (simp add: r6_def r5_def r4_def)
  have w6: "wf_remote r6"
    unfolding r6_def using w5 by (rule wf_prune_backups)
  have "resolves base r6"
    using resolves_new_release [OF n6, of cfg] c6 by (simp add: base_def)
  then have I6: "I r6"
    using w6 by (simp add: I_def)
  have I78: "I (r4\<lparr>current := Some (BACKUP_DIR cfg w)\<rparr>) \<and>
      I (r4\<lparr>current := Some (BACKUP_DIR cfg w), restarts := Suc (restarts r4)\<rparr>)"
    if d: "dir_exists (REMOTE_PATH cfg) r4 (BACKUP_DIR cfg w)"
  proof -
    have ra: "resolves base (r4\<lparr>current := Some (BACKUP_DIR cfg w)\<rparr>)"
      using resolves_this_backup [OF d] by (simp add: base_def)
    have a: "I (r4\<lparr>current := Some (BACKUP_DIR cfg w)\<rparr>)"
      using ra w4 by (simp add: I_def)
    have "resolves base (r4\<lparr>current := Some (BACKUP_DIR cfg w), restarts := Suc (restarts r4)\<rparr>)"
      using ra by (simp only: resolves_update)
    moreover have "wf_remote (r4\<lparr>current := Some (BACKUP_DIR cfg w), restarts := Suc (restarts r4)\<rparr>)"
      using w4 by simp
    ultimately have "I (r4\<lparr>current := Some (BACKUP_DIR cfg w), restarts := Suc (restarts r4)\<rparr>)"
      by (simp add: I_def)
    with a show ?thesis ..
  qed
  have "\<forall>s \<in> states (deploy w r). I s"
    using assms(1) Ir I0 I1 I2 I3 I4 I5 I6 I78
    unfolding r0_def r1_def r2_def r3_def r4_def r5_def r6_def base_def
    by (rule deploy_states_cases)
  then show ?thesis
    by (simp add: I_def base_def)
qed

lemma rollback_sets_pointer:
  assumes "config_of w = Some cfg" "wf_remote r"
  shows "\<forall>s \<in> states (rollback w r).
    wf_remote s \<and> (resolves (REMOTE_PATH cfg) s \<or> current s = current r)"
proof (cases "dir_exists (REMOTE_PATH cfg) r (rollback_path (REMOTE_PATH cfg) (arg2 w))")
  case False
  then have "states (rollback w r) \<subseteq> {r}"
    using rollback_states [OF assms(1), of r] by (simp only: if_False)
  then show ?thesis
    using assms(2) by blast
next
  case True
  define base where "base = REMOTE_PATH cfg"
  define p where "p = rollback_path base (arg2 w)"
  define I where "I = (\<lambda>s::remote. wf_remote s \<and> (resolves base s \<or> current s = current r))"
  define r1 where "r1 = (case current r of None \<Rightarrow> r
     | Some t \<Rightarrow> if dir_exists base r t then snapshot w r else r)"
  have Ir: "I r"
    using assms(2) by (simp add: I_def)
  have "I (snapshot w r)"
    using Ir by (simp add: I_def wf_snapshot)
  then have I1: "I r1"
    using Ir by (simp add: r1_def split: option.splits)
  have w1: "wf_remote r1"
    using I1 by (simp add: I_def)
  have "dir_exists base (snapshot w r) p"
    using True unfolding base_def [symmetric] p_def [symmetric]
    by (rule dir_exists_mono) auto
  then have "dir_exists base r1 p"
    using True by (simp add: r1_def base_def p_def split: option.splits)
  then have ra: "resolves base (r1\<lparr>current := Some p\<rparr>)"
    unfolding p_def by (rule resolves_target)
  then have I2: "I (r1\<lparr>current := Some p\<rparr>)"
    using w1 by (simp add: I_def)
  have "resolves base (r1\<lparr>current := Some p, restarts := Suc (restarts r1)\<rparr>)"
    using ra by (simp only: resolves_update)
  moreover have "wf_remote (r1\<lparr>current := Some p, restarts := Suc (restarts r1)\<rparr>)"
    using w1 by simp
  ultimately have I3: "I (r1\<lparr>current := Some p, restarts := Suc (restarts r1)\<rparr>)"
    by (simp add: I_def)
  have "states (rollback w r)
      \<subseteq> insert r (states (rollback_snapshot cfg w (default_staging (arg1 w)) p r))"
    using rollback_states [OF assms(1), of r] True
    unfolding p_def base_def by (simp only: if_True)
  moreover have "states (rollback_snapshot cfg w (default_staging (arg1 w)) p r)
     \<subseteq> {r, r1, r1\<lparr>current := Some p\<rparr>, r1\<lparr>current := Some p, restarts := Suc (restarts r1)\<rparr>}"
    unfolding r1_def base_def by (rule rollback_snapshot_states)
  ultimately have "\<forall>s \<in> states (rollback w r). I s"
    using Ir I1 I2 I3 by blast
  then show ?thesis
    by (simp add: I_def base_def)
qed


lemma final_in_states: "final ru \<in> states ru"
  by (simp add: states_def)


section \<open>The copies a rollback leaves behind\<close>

lemma backups_put_other:
  "\<not> glob_backup n \<Longrightarrow>
   filter (\<lambda>e. glob_backup (fst e)) (put n t es) = filter (\<lambda>e. glob_backup (fst e)) es"
  by (induction es) (auto simp: put_def)

lemma listings_snapshot:
  "list_releases (snapshot w r) = list_releases r" "list_backups (snapshot w r) = list_backups r"
proof -
  have "filter (\<lambda>e. glob_backup (fst e)) (toplevel (snapshot w r))
      = filter (\<lambda>e. glob_backup (fst e)) (toplevel r)"
    unfolding snapshot_fields(2) by (rule backups_put_other) (rule not_glob_rollback_backup)
  then have "ls_dt_backups (toplevel (snapshot w r)) = ls_dt_backups (toplevel r)"
    by (simp only: ls_dt_backups_def)
  then show "list_backups (snapshot w r) = list_backups r"
    by (simp only: list_backups_def)
  show "list_releases (snapshot w r) = list_releases r"
    by (simp add: list_releases_def)
qed

lemma list_backups_no_snapshot: "''rollback_backup_'' @ ts \<notin> set (list_backups r)"
proof -
  have "\<forall>n \<in> set (map fst (ls_dt_backups (toplevel r))). glob_backup n"
    by (auto simp: ls_dt_backups_def)
  then have "''rollback_backup_'' @ ts \<notin> set (map fst (ls_dt_backups (toplevel r)))"
    using not_glob_rollback_backup [of ts] by blast
  then show ?thesis
    by (simp add: list_backups_def)
qed

lemma put_keeps_other: "e \<in> set es \<Longrightarrow> fst e \<noteq> n \<Longrightarrow> e \<in> set (put n t es)"
  by (simp add: put_def)

lemma prune_backups_keeps_other:
  assumes "e \<in> set (toplevel r)" "\<not> glob_backup (fst e)"
  shows "e \<in> set (toplevel (prune_backups w r))"
proof -
  have "e \<in> set (filter (\<lambda>e. \<not> glob_backup (fst e)) (toplevel r))"
    using assms by simp
  then have "e \<in> set (filter (\<lambda>e. \<not> glob_backup (fst e)) (rm_rf (old_backups r) (toplevel r)))"
    by (simp only: others_rm_rf_old_backups)
  then have "e \<in> set (rm_rf (old_backups r) (toplevel r))"
    by simp
  then show ?thesis
    using assms(1) by (simp add: prune_backups_def)
qed

lemma deploy_keeps_others:
  assumes "e \<in> set (toplevel r)" "\<not> glob_backup (fst e)"
  shows "\<forall>s \<in> states (deploy w r). e \<in> set (toplevel s)"
proof (cases "config_of w")
  case None
  then show ?thesis
    using assms(1) by (simp add: deploy_states_invalid)
next
  case (Some cfg)
  have n: "fst e \<noteq> ''backup_'' @ TIMESTAMP w"
    using assms(2) glob_backup_append [of "TIMESTAMP w"] by metis
  have b: "e \<in> set (toplevel (backup_current w r))"
    using assms(1) n by (simp add: put_keeps_other)
  define K where "K = (\<lambda>s::remote. e \<in> set (toplevel s))"
  define r0 where "r0 = (if current_is_dir (REMOTE_PATH cfg) r then backup_current w r else r)"
  define r2 where "r2 = install_deps w (make_release w r0)"
  define r4 where "r4 = r2\<lparr>current := Some (RELEASE_DIR cfg w), restarts := Suc (restarts r2)\<rparr>"
  have Kr: "K r"
    using assms(1) by (simp add: K_def)
  have K0: "K r0"
    using assms(1) b by (simp add: r0_def K_def)
  have K1: "K (make_release w r0)"
    using K0 by (simp add: K_def)
  have K2: "K r2"
    using K0 by (simp add: K_def r2_def)
  have K3: "K (r2\<lparr>current := Some (RELEASE_DIR cfg w)\<rparr>)"
    using K2 by (simp add: K_def)
  have K4: "K r4"
    using K2 by (simp add: K_def r4_def)
  have K5: "K (prune_releases w r4)"
    using K4 by (simp add: K_def)
  have "e \<in> set (toplevel (prune_releases w r4))"
    using K5 by (simp add: K_def)
  then have "e \<in> set (toplevel (prune_backups w (prune_releases w r4)))"
    using assms(2) by (rule prune_backups_keeps_other)
  then have K6: "K (prune_backups w (prune_releases w r4))"
    by (simp add: K_def)
  have K78: "K (r4\<lparr>current := Some (BACKUP_DIR cfg w)\<rparr>) \<and>
      K (r4\<lparr>current := Some (BACKUP_DIR cfg w), restarts := Suc (restarts r4)\<rparr>)"
    using K4 by (simp add: K_def)
  have "\<forall>s \<in> states (deploy w r). K s"
    using Some Kr K0 K1 K2 K3 K4 K5 K6 K78
    unfolding r0_def r2_def r4_def
    by (rule deploy_states_cases)
  then show ?thesis
    by (simp add: K_def)
qed

text \<open>
  C10. A copy \<^verbatim>\<open>rollback_backup_<timestamp>\<close> made by the rollback changes neither
  listing of the discovery mode, and no such name is in the listing of backups; it is in
  the top-level directory at every step of any later deployment, so the retention of
  backups never removes it. As a rollback target such a name is looked for under
  \<^verbatim>\<open>releases/\<close>, so the rollback exits with code 1, the tree unchanged, unless a
  release directory of that very name is there.
\<close>

theorem rollback_snapshots_out_of_reach:
  "list_releases (snapshot w r) = list_releases r \<and>
   list_backups (snapshot w r) = list_backups r \<and>
   ''rollback_backup_'' @ ts \<notin> set (list_backups r) \<and>
   (e \<in> set (toplevel r) \<and> fst e = ''rollback_backup_'' @ ts \<longrightarrow>
      (\<forall>s \<in> states (deploy w r). e \<in> set (toplevel s))) \<and>
   rollback_path base (''rollback_backup_'' @ ts) = base @ ''/releases/rollback_backup_'' @ ts \<and>
   (rollback_valid w cfg \<and> arg2 w = ''rollback_backup_'' @ ts \<and>
      arg2 w \<notin> fst ` set (releases r) \<longrightarrow>
      exit_code (rollback w r) = 1 \<and> final (rollback w r) = r)"
proof (intro conjI impI; (elim conjE)?)
  show "list_releases (snapshot w r) = list_releases r"
    "list_backups (snapshot w r) = list_backups r"
    by (rule listings_snapshot)+
  show "''rollback_backup_'' @ ts \<notin> set (list_backups r)"
    by (rule list_backups_no_snapshot)
  show "rollback_path base (''rollback_backup_'' @ ts) = base @ ''/releases/rollback_backup_'' @ ts"
    using not_glob_rollback_backup [of ts] by (simp add: rollback_path_def)
next
  assume m: "e \<in> set (toplevel r)" and f: "fst e = ''rollback_backup_'' @ ts"
  have "\<not> glob_backup (fst e)"
    unfolding f by (rule not_glob_rollback_backup)
  with m show "\<forall>s \<in> states (deploy w r). e \<in> set (toplevel s)"
    by (rule deploy_keeps_others)
next
  assume v: "rollback_valid w cfg" and a: "arg2 w = ''rollback_backup_'' @ ts"
    and n: "arg2 w \<notin> fst ` set (releases r)"
  have "\<not> glob_backup (arg2 w)"
    unfolding a by (rule not_glob_rollback_backup)
  then have "\<not> dir_exists (REMOTE_PATH cfg) r (rollback_path (REMOTE_PATH cfg) (arg2 w))"
    using n by (simp add: dir_exists_rollback_path)
  with v show "exit_code (rollback w r) = 1" "final (rollback w r) = r"
    by (rule rollback_absent)+
qed


theorem rollback_snapshots_out_of_reach_witness:
  "(''rollback_backup_20240103_120000'', 7) \<in> set (toplevel r_six) \<and>
   fst (''rollback_backup_20240103_120000'', 7 :: nat) = ''rollback_backup_'' @ ''20240103_120000'' \<and>
   (''rollback_backup_20240103_120000'', 7) \<in> set (toplevel (final (deploy w_to_snapshot r_six))) \<and>
   rollback_valid w_to_snapshot staging \<and>
   arg2 w_to_snapshot = ''rollback_backup_'' @ ''20240103_120000'' \<and>
   arg2 w_to_snapshot \<notin> fst ` set (releases r_six) \<and>
   exit_code (rollback w_to_snapshot r_six) = 1 \<and> final (rollback w_to_snapshot r_six) = r_six"
proof -
  have a: "(''rollback_backup_20240103_120000'', 7) \<in> set (toplevel r_six)"
    "fst (''rollback_backup_20240103_120000'', 7 :: nat) = ''rollback_backup_'' @ ''20240103_120000''"
    by code_simp+
  have b: "rollback_valid w_to_snapshot staging"
    "arg2 w_to_snapshot = ''rollback_backup_'' @ ''20240103_120000''"
    "arg2 w_to_snapshot \<notin> fst ` set (releases r_six)"
    by code_simp+
  have ha: "(''rollback_backup_20240103_120000'', 7) \<in> set (toplevel r_six) \<and>
      fst (''rollback_backup_20240103_120000'', 7 :: nat) = ''rollback_backup_'' @ ''20240103_120000''"
    using a by (intro conjI)
  have hb: "rollback_valid w_to_snapshot staging \<and>
      arg2 w_to_snapshot = ''rollback_backup_'' @ ''20240103_120000'' \<and>
      arg2 w_to_snapshot \<notin> fst ` set (releases r_six)"
    using b by (intro conjI)
  note t = rollback_snapshots_out_of_reach
      [of w_to_snapshot r_six "''20240103_120000''" "(''rollback_backup_20240103_120000'', 7)"
          "[]" staging]
  note tk = t [THEN conjunct2, THEN conjunct2, THEN conjunct2, THEN conjunct1, THEN mp, OF ha,
      THEN bspec, OF final_in_states]
  note tr = t [THEN conjunct2, THEN conjunct2, THEN conjunct2, THEN conjunct2, THEN conjunct2,
      THEN mp, OF hb]
  show ?thesis
    by (intro conjI a b tk tr [THEN conjunct1] tr [THEN conjunct2])
qed

end
